theory Spec2Isabelle
  imports Complex_Main
begin

section \<open>Overlay geometry of the photo editor\<close>

text \<open>
  The editor (\<^verbatim>\<open>src/components/PhotoEditor.tsx\<close>) keeps the stage size in
  \<^verbatim>\<open>photoSize = {width, height}\<close> and the overlay in
  \<^verbatim>\<open>calendarAttrs = {x, y, width, height, id}\<close>; the Konva transformer hands
  \<^verbatim>\<open>boundBoxFunc\<close> boxes \<^verbatim>\<open>{x, y, width, height, rotation}\<close>.
  The coordinates, JavaScript numbers, are modelled as real numbers. Comparisons,
  \<^verbatim>\<open>Math.min\<close> and \<^verbatim>\<open>Math.max\<close> of doubles are exact; a sum, a difference,
  a product or a quotient of doubles is the exact result, rounded. In the drag clamp, in
  the commit of a resize and in the sizing of the export canvas the rounding is an
  argument \<open>rnd\<close> of the function, and an operation \<open>a \<circ> b\<close> of the source is
  \<open>rnd (a \<circ> b)\<close>; nothing is assumed about \<open>rnd\<close> unless a theorem says so.
  \<^verbatim>\<open>boundBoxFunc\<close> is written with exact sums: what is proved of it below rests
  on its comparisons with 50 alone, whatever the sums. NaN and the infinities are
  outside the model.
\<close>

text \<open>Arithmetic without rounding.\<close>

definition exact :: "real \<Rightarrow> real" where
  "exact v = v"

text \<open>
  Rounding to the nearest double: between \<open>2\<^sup>-\<^sup>1\<^sup>0\<^sup>0\<close> and \<open>2\<^sup>1\<^sup>0\<^sup>0\<close>, well inside the
  range of the normal doubles, the rounded value is within \<open>2\<^sup>-\<^sup>5\<^sup>3\<close> of the exact one,
  relative to it.
\<close>

definition accurate :: "(real \<Rightarrow> real) \<Rightarrow> bool" where
  "accurate rnd = (\<forall>v. 1 / 2 ^ 100 \<le> v \<and> v \<le> 2 ^ 100 \<longrightarrow> \<bar>rnd v - v\<bar> \<le> v / 2 ^ 53)"

text \<open>
  Two numbers that differ by a factor of at most \<open>r\<close>, and a factor that covers one
  rounding in both directions.
\<close>

definition near :: "real \<Rightarrow> real \<Rightarrow> real \<Rightarrow> bool" where
  "near r u v = (v \<le> u * r \<and> u \<le> v * r)"

definition roundoff :: real where
  "roundoff = 1 + 1 / 10 ^ 9"

record size =
  width :: real
  height :: real

record rect = size +
  x :: real
  y :: real

record attrs = rect +
  id :: string

record box = rect +
  rotation :: real

text \<open>
  \<^verbatim>\<open>keepCalendarWithinBounds(newAttrs)\<close>, lines 460-487. The argument is typed
  \<^verbatim>\<open>any\<close> and is copied with \<^verbatim>\<open>{...newAttrs, x, y}\<close>, so the model takes
  any record that extends \<^typ>\<open>rect\<close> and updates two fields of it.
\<close>

definition keepCalendarWithinBounds ::
    "(real \<Rightarrow> real) \<Rightarrow> size \<Rightarrow> 'a rect_scheme \<Rightarrow> 'a rect_scheme" where
  "keepCalendarWithinBounds rnd photoSize newAttrs =
     (let stageWidth = width photoSize;
          stageHeight = height photoSize;
          constrainedX =
            (if x newAttrs < 0 then 0
             else if rnd (x newAttrs + width newAttrs) > stageWidth
               then max 0 (rnd (stageWidth - width newAttrs))
             else x newAttrs);
          constrainedY =
            (if y newAttrs < 0 then 0
             else if rnd (y newAttrs + height newAttrs) > stageHeight
               then max 0 (rnd (stageHeight - height newAttrs))
             else y newAttrs)
      in newAttrs\<lparr>x := constrainedX, y := constrainedY\<rparr>)"

text \<open>
  \<^verbatim>\<open>boundBoxFunc(oldBox, newBox)\<close> of the transformer, lines 875-917. The
  assignments to \<^verbatim>\<open>constrainedBox\<close> are kept in the order of the source; the
  tests read \<^verbatim>\<open>newBox\<close>, the updates write \<^verbatim>\<open>constrainedBox\<close>.
\<close>

definition boundBoxFunc :: "size \<Rightarrow> box \<Rightarrow> box \<Rightarrow> box" where
  "boundBoxFunc photoSize oldBox newBox =
     (if width newBox < 50 \<or> height newBox < 50 then oldBox
      else if x newBox < 0 \<or> y newBox < 0
              \<or> x newBox + width newBox > width photoSize
              \<or> y newBox + height newBox > height photoSize
      then
        (let b0 = newBox;
             b1 = (if x newBox < 0 then b0\<lparr>width := width b0 + x newBox, x := 0\<rparr> else b0);
             b2 = (if x newBox + width newBox > width photoSize
                   then b1\<lparr>width := width photoSize - x newBox\<rparr> else b1);
             b3 = (if y newBox < 0 then b2\<lparr>height := height b2 + y newBox, y := 0\<rparr> else b2);
             b4 = (if y newBox + height newBox > height photoSize
                   then b3\<lparr>height := height photoSize - y newBox\<rparr> else b3);
             b5 = (if width b4 < 50 then b4\<lparr>width := 50\<rparr> else b4);
             b6 = (if height b5 < 50 then b5\<lparr>height := 50\<rparr> else b5)
         in b6)
      else newBox)"

text \<open>
  \<^verbatim>\<open>changeMonth(delta)\<close>, lines 428-442, on the state
  \<^verbatim>\<open>(calendarMonth, calendarYear)\<close>; the result is the pair handed to the two
  setters.
\<close>

definition changeMonth :: "int \<times> int \<Rightarrow> int \<Rightarrow> int \<times> int" where
  "changeMonth st delta =
     (let calendarMonth = fst st;
          calendarYear = snd st;
          newMonth = calendarMonth + delta;
          newYear = calendarYear
      in if newMonth > 11 then (0, newYear + 1)
         else if newMonth < 0 then (11, newYear - 1)
         else (newMonth, newYear))"

text \<open>
  The Konva node of the overlay group, as \<^verbatim>\<open>handleTransformEnd\<close> reads it
  through \<^verbatim>\<open>node.x()\<close>, \<^verbatim>\<open>node.y()\<close>, \<^verbatim>\<open>node.width()\<close>,
  \<^verbatim>\<open>node.height()\<close>, \<^verbatim>\<open>node.scaleX()\<close> and \<^verbatim>\<open>node.scaleY()\<close>.
\<close>

record node =
  node_x :: real
  node_y :: real
  node_width :: real
  node_height :: real
  scaleX :: real
  scaleY :: real

text \<open>
  \<^verbatim>\<open>handleTransformEnd\<close>, lines 686-721: nothing happens when
  \<^verbatim>\<open>calendarRef.current\<close> is null; otherwise the scaled size is capped by the
  stage, the position is clamped, the result is committed with
  \<^verbatim>\<open>setCalendarAttrs\<close> and the node's scale is reset to 1. The result is the
  committed attributes and the node.
\<close>

definition handleTransformEnd ::
    "(real \<Rightarrow> real) \<Rightarrow> size \<Rightarrow> attrs \<Rightarrow> node option \<Rightarrow> attrs \<times> node option" where
  "handleTransformEnd rnd photoSize calendarAttrs calendarRef =
     (case calendarRef of
        None \<Rightarrow> (calendarAttrs, None)
      | Some nd \<Rightarrow>
          (let newAttrs = calendarAttrs
                 \<lparr>x := node_x nd,
                  y := node_y nd,
                  width := min (rnd (node_width nd * scaleX nd)) (width photoSize),
                  height := min (rnd (node_height nd * scaleY nd)) (height photoSize)\<rparr>;
               constrainedAttrs = keepCalendarWithinBounds rnd photoSize newAttrs
           in (constrainedAttrs, Some (nd\<lparr>scaleX := 1, scaleY := 1\<rparr>))))"

text \<open>
  The \<^verbatim>\<open>onDragEnd\<close> handler of the group, lines 821-843, for a drag that ends
  with the node at \<^verbatim>\<open>(e.target.x(), e.target.y())\<close>: the committed attributes,
  and the position the node is left at (snapped back when the clamp changed it).
\<close>

definition onDragEnd ::
    "(real \<Rightarrow> real) \<Rightarrow> size \<Rightarrow> attrs \<Rightarrow> real \<times> real \<Rightarrow> attrs \<times> (real \<times> real)" where
  "onDragEnd rnd photoSize calendarAttrs target =
     (let newAttrs = calendarAttrs\<lparr>x := fst target, y := snd target\<rparr>;
          constrainedAttrs = keepCalendarWithinBounds rnd photoSize newAttrs
      in (constrainedAttrs,
          if fst target \<noteq> x constrainedAttrs \<or> snd target \<noteq> y constrainedAttrs
          then (x constrainedAttrs, y constrainedAttrs) else target))"

text \<open>
  The effect that runs when the photo has loaded, lines 601-644: the stage is the
  photo's size scaled into the viewport, and the overlay is re-centred at 60 percent of
  the stage width (at most 600) with the calendar's 850:1000 aspect ratio. The arguments
  are \<^verbatim>\<open>isMobile\<close>, \<^verbatim>\<open>window.innerWidth\<close>, \<^verbatim>\<open>window.innerHeight\<close>, the
  size of \<^verbatim>\<open>userImg\<close> and the previous attributes. The arithmetic is written
  without rounding: the effect is used below only to exhibit two photos, whose overlays
  miss the bounds by more than half their size.
\<close>

definition photoEffect :: "bool \<Rightarrow> real \<Rightarrow> real \<Rightarrow> size \<Rightarrow> attrs \<Rightarrow> size \<times> attrs" where
  "photoEffect isMobile innerWidth innerHeight userImg prevAttrs =
     (let maxWidth = (if isMobile then innerWidth * 0.95 else innerWidth * 0.8);
          maxHeight = (if isMobile then innerHeight * 0.35 else innerHeight * 0.6);
          w0 = width userImg;
          h0 = height userImg;
          (w1, h1) = (if w0 > maxWidth then (maxWidth, h0 * (maxWidth / w0)) else (w0, h0));
          (w2, h2) = (if h1 > maxHeight
                      then (w1 * (maxHeight / h1), h1 * (maxHeight / h1)) else (w1, h1));
          calendarWidth = min (w2 * 0.6) 600;
          aspectRatio = 850 / 1000;
          calendarHeight = calendarWidth * aspectRatio;
          calendarX = (w2 - calendarWidth) / 2;
          calendarY = (h2 - calendarHeight) / 2
      in (\<lparr>width = w2, height = h2\<rparr>,
          prevAttrs\<lparr>x := calendarX, y := calendarY,
                    width := calendarWidth, height := calendarHeight\<rparr>))"

subsection \<open>Gestures\<close>

text \<open>
  The editor state the overlay invariants speak about, its initial value (the
  \<^verbatim>\<open>useState\<close> defaults, lines 127-135) and the events that change it: the photo
  has loaded, a drag has ended with the node at a position, a resize has ended with the
  node in a state. The Konva transformer, which moves and scales the node during a
  resize, is library code; the node it leaves behind is the input of the event, so every
  position, size and scale is covered.
\<close>

record editor =
  photoSize :: size
  calendarAttrs :: attrs

definition initialEditor :: editor where
  "initialEditor =
     \<lparr>photoSize = \<lparr>width = 800, height = 600\<rparr>,
      calendarAttrs = \<lparr>width = 400, height = 350, x = 50, y = 50, id = ''calendar''\<rparr>\<rparr>"

datatype event =
    PhotoLoaded bool real real size
  | DragEnd real real
  | TransformEnd node

fun is_gesture :: "event \<Rightarrow> bool" where
  "is_gesture (PhotoLoaded _ _ _ _) = False"
| "is_gesture (DragEnd _ _) = True"
| "is_gesture (TransformEnd _) = True"

fun step :: "(real \<Rightarrow> real) \<Rightarrow> editor \<Rightarrow> event \<Rightarrow> editor" where
  "step rnd e (PhotoLoaded isMobile innerWidth innerHeight userImg) =
     (let (ps, a) = photoEffect isMobile innerWidth innerHeight userImg (calendarAttrs e)
      in \<lparr>photoSize = ps, calendarAttrs = a\<rparr>)"
| "step rnd e (DragEnd tx ty) =
     e\<lparr>calendarAttrs := fst (onDragEnd rnd (photoSize e) (calendarAttrs e) (tx, ty))\<rparr>"
| "step rnd e (TransformEnd nd) =
     e\<lparr>calendarAttrs :=
         fst (handleTransformEnd rnd (photoSize e) (calendarAttrs e) (Some nd))\<rparr>"

text \<open>The states committed after each event of a sequence, in order.\<close>

fun commits :: "(real \<Rightarrow> real) \<Rightarrow> editor \<Rightarrow> event list \<Rightarrow> editor list" where
  "commits rnd e [] = []"
| "commits rnd e (ev # evs) = step rnd e ev # commits rnd (step rnd e ev) evs"

text \<open>The six invariants of the overlay transform (section 3 of the specification).\<close>

definition overlay_ok :: "editor \<Rightarrow> bool" where
  "overlay_ok e =
     (0 \<le> x (calendarAttrs e) \<and> 0 \<le> y (calendarAttrs e)
      \<and> x (calendarAttrs e) + width (calendarAttrs e) \<le> width (photoSize e)
      \<and> y (calendarAttrs e) + height (calendarAttrs e) \<le> height (photoSize e)
      \<and> 50 \<le> width (calendarAttrs e) \<and> 50 \<le> height (calendarAttrs e))"

text \<open>
  Each side of the overlay is at least 50 and at most the side of the stage.
\<close>

definition overlay_sized :: "editor \<Rightarrow> bool" where
  "overlay_sized e =
     (50 \<le> width (calendarAttrs e) \<and> width (calendarAttrs e) \<le> width (photoSize e)
      \<and> 50 \<le> height (calendarAttrs e) \<and> height (calendarAttrs e) \<le> height (photoSize e))"

text \<open>
  The six invariants in the arithmetic of the code: the position is not negative, the
  overlay is sized as above, and it is contained in the stage as the clamp sees it, that
  is, \<open>x\<close> is at most the room \<open>stageWidth - width\<close> as computed (or 0), or the right
  edge \<open>x + width\<close> as computed is at most the stage width; likewise for \<open>y\<close>.
\<close>

definition overlay_kept :: "(real \<Rightarrow> real) \<Rightarrow> editor \<Rightarrow> bool" where
  "overlay_kept rnd e =
     (0 \<le> x (calendarAttrs e) \<and> 0 \<le> y (calendarAttrs e)
      \<and> overlay_sized e
      \<and> (x (calendarAttrs e) \<le> max 0 (rnd (width (photoSize e) - width (calendarAttrs e)))
           \<or> rnd (x (calendarAttrs e) + width (calendarAttrs e)) \<le> width (photoSize e))
      \<and> (y (calendarAttrs e) \<le> max 0 (rnd (height (photoSize e) - height (calendarAttrs e)))
           \<or> rnd (y (calendarAttrs e) + height (calendarAttrs e)) \<le> height (photoSize e)))"

text \<open>
  A drag, or a resize that leaves the node with a scaled width and a scaled height, as
  the commit computes them (line 698 and line 699), of at least 50.
\<close>

fun floor_kept :: "(real \<Rightarrow> real) \<Rightarrow> event \<Rightarrow> bool" where
  "floor_kept rnd (PhotoLoaded _ _ _ _) = False"
| "floor_kept rnd (DragEnd _ _) = True"
| "floor_kept rnd (TransformEnd nd) =
     (50 \<le> rnd (node_width nd * scaleX nd) \<and> 50 \<le> rnd (node_height nd * scaleY nd))"

section \<open>Size of the off-screen canvas\<close>

text \<open>
  The export pixel ratio, lines 207-220 of \<^verbatim>\<open>getCleanRender\<close>, from
  \<^verbatim>\<open>isMobile\<close> and \<^verbatim>\<open>window.innerWidth\<close>.
\<close>

definition exportPixelRatio :: "bool \<Rightarrow> real \<Rightarrow> real" where
  "exportPixelRatio isMobile screenWidth =
     (if isMobile then
        (if screenWidth \<le> 375 then 8
         else if screenWidth \<le> 428 then 7
         else if screenWidth \<le> 768 then 6
         else 3)
      else 3)"

definition maxDimension :: real where
  "maxDimension = 4096"

text \<open>
  Lines 258-274: the pair \<^verbatim>\<open>(finalWidth, finalHeight)\<close> computed for a stage
  and a pixel ratio, every product and quotient rounded. In JavaScript
  \<^verbatim>\<open>4096 / 0\<close> is Infinity, and the minimum of Infinity and a number is the
  number; the two tests for zero write that out (both targets cannot be zero when one
  exceeds the limit).
\<close>

definition finalSize :: "(real \<Rightarrow> real) \<Rightarrow> real \<Rightarrow> real \<Rightarrow> real \<Rightarrow> real \<times> real" where
  "finalSize rnd stageWidth stageHeight pixelRatio =
     (let targetWidth = rnd (stageWidth * pixelRatio);
          targetHeight = rnd (stageHeight * pixelRatio)
      in if targetWidth > maxDimension \<or> targetHeight > maxDimension
         then (let scaleFactor =
                     (if targetWidth = 0 then rnd (maxDimension / targetHeight)
                      else if targetHeight = 0 then rnd (maxDimension / targetWidth)
                      else min (rnd (maxDimension / targetWidth))
                               (rnd (maxDimension / targetHeight)))
               in (rnd (targetWidth * scaleFactor), rnd (targetHeight * scaleFactor)))
         else (targetWidth, targetHeight))"

text \<open>
  Lines 276-277 assign the two numbers to \<^verbatim>\<open>offscreenCanvas.width\<close> and
  \<^verbatim>\<open>offscreenCanvas.height\<close>, which the DOM declares as unsigned integers:
  for a non-negative number below \<open>2\<^sup>3\<^sup>1\<close> the attribute keeps the integer part.
\<close>

definition canvasSize :: "(real \<Rightarrow> real) \<Rightarrow> real \<Rightarrow> real \<Rightarrow> real \<Rightarrow> int \<times> int" where
  "canvasSize rnd stageWidth stageHeight pixelRatio =
     (let (finalWidth, finalHeight) = finalSize rnd stageWidth stageHeight pixelRatio
      in (\<lfloor>finalWidth\<rfloor>, \<lfloor>finalHeight\<rfloor>))"

text \<open>
  Modelled from the spec: the size the claim states, in exact arithmetic. The target is
  the stage times the pixel ratio, and when a target dimension exceeds 4096 both are
  multiplied by \<open>min (4096 / targetWidth) (4096 / targetHeight)\<close>.
\<close>

definition fitFactor :: "real \<Rightarrow> real \<Rightarrow> real" where
  "fitFactor targetWidth targetHeight =
     (if targetWidth > 4096 \<or> targetHeight > 4096
      then min (4096 / targetWidth) (4096 / targetHeight) else 1)"

definition fittedSize :: "real \<Rightarrow> real \<Rightarrow> real \<Rightarrow> real \<times> real" where
  "fittedSize stageWidth stageHeight pixelRatio =
     (stageWidth * pixelRatio * fitFactor (stageWidth * pixelRatio) (stageHeight * pixelRatio),
      stageHeight * pixelRatio * fitFactor (stageWidth * pixelRatio) (stageHeight * pixelRatio))"

text \<open>The first of two positive targets, fitted, as one quotient.\<close>

definition fitted :: "real \<Rightarrow> real \<Rightarrow> real" where
  "fitted a b = a * (4096 / max 4096 (max a b))"

section \<open>Filter engine\<close>

text \<open>
  The catalogue \<^verbatim>\<open>PHOTO_FILTERS\<close>, lines 32-55. The \<^verbatim>\<open>style\<close> object either
  is empty or has the one key \<^verbatim>\<open>filter\<close>.
\<close>

record photo_filter =
  filter_name :: string
  filter_value :: string
  filter_style :: "string option"

definition PHOTO_FILTERS :: "photo_filter list" where
  "PHOTO_FILTERS =
     [\<lparr>filter_name = ''None'', filter_value = ''none'', filter_style = None\<rparr>,
      \<lparr>filter_name = ''Clarendon'', filter_value = ''clarendon'',
       filter_style = Some ''contrast(1.2) saturate(1.35) brightness(1.1)''\<rparr>,
      \<lparr>filter_name = ''Gingham'', filter_value = ''gingham'',
       filter_style = Some ''brightness(1.05) hue-rotate(-10deg) sepia(0.2)''\<rparr>,
      \<lparr>filter_name = ''Juno'', filter_value = ''juno'',
       filter_style = Some ''sepia(0.35) contrast(1.15) brightness(1.15) saturate(1.8)''\<rparr>]"

text \<open>JavaScript truthiness of a value that is null, undefined or a string.\<close>

fun truthy :: "string option \<Rightarrow> bool" where
  "truthy None = False"
| "truthy (Some s) = (s \<noteq> [])"

text \<open>
  Choosing the catalogue entry with a given name in the filter control sets
  \<^verbatim>\<open>selectedFilter\<close> to the entry's \<^verbatim>\<open>value\<close> (the option elements and the
  preview tiles, lines 1076-1101).
\<close>

definition selectFilterNamed :: "string \<Rightarrow> string option" where
  "selectFilterNamed nm =
     map_option filter_value (find (\<lambda>f. filter_name f = nm) PHOTO_FILTERS)"

text \<open>
  What can happen to the image element of the bake after its listeners are attached: the
  load event fires before the 3 second timer of the effect, or after it, or the error
  event fires, or nothing.
\<close>

datatype load_event = FiresLoad | FiresLoadLate | FiresError | Silent

text \<open>
  The outcomes outside the program during a bake: whether the image loads, whether
  the two 2D contexts are available, whether drawing throws, and the data URL that
  \<^verbatim>\<open>toDataURL\<close> returns (none when it throws).
\<close>

record bake_env =
  bake_load :: load_event
  bake_ctx :: bool
  bake_tempCtx :: bool
  bake_throws :: bool
  bake_dataUrl :: "string option"

text \<open>
  The canvas work of the \<^verbatim>\<open>onload\<close> handler, lines 520-577: the data URL it
  sets, or null on any failure.
\<close>

definition bakeFilter :: "bake_env \<Rightarrow> photo_filter \<Rightarrow> string option" where
  "bakeFilter bk flt =
     (if bake_throws bk then None
      else if \<not> bake_ctx bk then None
      else if \<not> truthy (filter_style flt) then None
      else if \<not> bake_tempCtx bk then None
      else bake_dataUrl bk)"

text \<open>
  The filter effect, lines 490-596: the value of the state \<^verbatim>\<open>filteredImage\<close>
  once the effect, its image callbacks and its timer have run, from the value it had
  before. Without a user image the effect returns and leaves the state alone. The
  3 second timer (lines 580-585) tests the state the effect captured, not the current
  one, and sets null when that is falsy: it undoes a bake that finished before it, and
  is overwritten by a bake that finishes after it.
\<close>

definition filterEffect ::
    "string \<Rightarrow> string \<Rightarrow> bool \<Rightarrow> bake_env \<Rightarrow> string option \<Rightarrow> string option" where
  "filterEffect userImage selectedFilter isIOSDevice bk filteredImage =
     (if userImage = [] then filteredImage
      else
        (case find (\<lambda>f. filter_value f = selectedFilter) PHOTO_FILTERS of
           None \<Rightarrow> None
         | Some flt \<Rightarrow>
             if selectedFilter = ''none'' then None
             else if isIOSDevice then None
             else
               (case bake_load bk of
                  FiresError \<Rightarrow> None
                | Silent \<Rightarrow> (if \<not> truthy filteredImage then None else filteredImage)
                | FiresLoad \<Rightarrow>
                    (if \<not> truthy filteredImage then None else bakeFilter bk flt)
                | FiresLoadLate \<Rightarrow> bakeFilter bk flt)))"

text \<open>
  Line 599: the source of \<^verbatim>\<open>displayImage\<close> is \<^verbatim>\<open>filteredImage || userImage\<close>.
\<close>

definition displaySource :: "string option \<Rightarrow> string \<Rightarrow> string" where
  "displaySource filteredImage userImage =
     (case filteredImage of
        None \<Rightarrow> userImage
      | Some s \<Rightarrow> if s \<noteq> [] then s else userImage)"

text \<open>
  The filter style spread into the photo layer (lines 756-759), the style of the canvas
  container (lines 724-734) and the \<^verbatim>\<open>ctx.filter\<close> of the manual composite
  (lines 310-315); \<^term>\<open>None\<close> stands for no filter.
\<close>

definition layerFilter :: "bool \<Rightarrow> string option \<Rightarrow> string \<Rightarrow> string option" where
  "layerFilter isIOSDevice filteredImage selectedFilter =
     (if isIOSDevice \<or> (\<not> truthy filteredImage \<and> selectedFilter \<noteq> ''none'')
      then (case find (\<lambda>f. filter_value f = selectedFilter) PHOTO_FILTERS of
              None \<Rightarrow> None
            | Some flt \<Rightarrow> filter_style flt)
      else None)"

definition currentFilterStyle :: "string \<Rightarrow> string option" where
  "currentFilterStyle selectedFilter =
     (if selectedFilter = ''none'' then None
      else (case find (\<lambda>f. filter_value f = selectedFilter) PHOTO_FILTERS of
              None \<Rightarrow> None
            | Some flt \<Rightarrow> filter_style flt))"

definition containerFilter :: "bool \<Rightarrow> string \<Rightarrow> string option" where
  "containerFilter isIOSDevice selectedFilter =
     (if isIOSDevice then currentFilterStyle selectedFilter else None)"

definition compositeFilter :: "string \<Rightarrow> string option" where
  "compositeFilter selectedFilter =
     (if selectedFilter \<noteq> ''none''
      then (case find (\<lambda>f. filter_value f = selectedFilter) PHOTO_FILTERS of
              None \<Rightarrow> None
            | Some flt \<Rightarrow> (if truthy (filter_style flt) then filter_style flt else None))
      else None)"

section \<open>The export operation\<close>

text \<open>
  An image element as \<^verbatim>\<open>ensureImageLoaded\<close> (lines 90-124) sees it: the
  \<^verbatim>\<open>complete\<close> flag and \<^verbatim>\<open>naturalWidth\<close> when it is called, the event
  that fires afterwards, and the \<^verbatim>\<open>complete\<close> flag when the 3 second timer runs.
\<close>

datatype image_event = LoadEvent | ErrorEvent | NoEvent

record image =
  complete :: bool
  naturalWidth :: nat
  image_event :: image_event
  completeAtTimeout :: bool

text \<open>
  The promise of \<^verbatim>\<open>ensureImageLoaded\<close>: resolved (\<^term>\<open>Inr ()\<close>), rejected with
  a reason, or never settled (\<^term>\<open>None\<close>): when no event fires and the element is
  complete at the timer, nothing resolves or rejects it.
\<close>

definition ensureImageLoaded :: "image option \<Rightarrow> (string + unit) option" where
  "ensureImageLoaded img =
     (case img of
        None \<Rightarrow> Some (Inl ''No image provided'')
      | Some im \<Rightarrow>
          if complete im \<and> naturalWidth im > 0 then Some (Inr ())
          else
            (case image_event im of
               LoadEvent \<Rightarrow> Some (Inr ())
             | ErrorEvent \<Rightarrow> Some (Inl ''error event'')
             | NoEvent \<Rightarrow>
                 if \<not> completeAtTimeout im then Some (Inl ''Image failed to load'')
                 else None))"

text \<open>
  Everything \<^verbatim>\<open>getCleanRender\<close> reads from outside itself: the refs and device
  flags, and the outcome of each call into the platform (\<^term>\<open>Inl\<close> is a thrown
  error, \<^term>\<open>Inr\<close> a returned data URL). \<^verbatim>\<open>callbackThrows\<close> is an exception
  raised in the timer callback outside \<^verbatim>\<open>captureCanvas\<close> (caught at line 404),
  \<^verbatim>\<open>setupThrows\<close> one raised while the off-screen canvas is set up (lines
  246-286, caught at line 370).
\<close>

record export_env =
  stageRef :: bool
  isMobile :: bool
  isIOSDevice :: bool
  isAndroidDevice :: bool
  innerWidth :: real
  callbackThrows :: "string option"
  directCapture :: "string + string"
  retryCapture :: "string + string"
  setupThrows :: "string option"
  ctx :: bool
  displayImage :: "image option"
  drawPhotoThrows :: "string option"
  calendarImage :: "image option"
  drawCalendarThrows :: "string option"
  offscreenToDataURL :: "string + string"

text \<open>
  The effects of the operation that the claims speak about, in the order they happen:
  a call of \<^verbatim>\<open>setIsSelected\<close>, the 300 ms timer that lets the UI update, a
  \<^verbatim>\<open>stage.toDataURL\<close> capture at a pixel ratio, and the encoding of the
  off-screen canvas with \<^verbatim>\<open>offscreenCanvas.toDataURL\<close>.
\<close>

datatype action =
    SetIsSelected bool
  | UiTimer
  | StageToDataURL real
  | CanvasToDataURL

text \<open>
  The catch block of the direct export, lines 370-386: one more capture at a ratio of
  at most 4. The first component is the actions so far.
\<close>

definition retryExport ::
    "export_env \<Rightarrow> real \<Rightarrow> action list \<Rightarrow> action list \<times> (string + string) option" where
  "retryExport env pixelRatio acts =
     (acts @ [StageToDataURL (min 4 pixelRatio)],
      case retryCapture env of
        Inr simpleDataUrl \<Rightarrow> Some (Inr simpleDataUrl)
      | Inl fallbackError \<Rightarrow> Some (Inl ''Failed to export image''))"

text \<open>
  Lines 356-365: the off-screen canvas is encoded; a data URL shorter than 10000
  characters, or an exception (line 366), gives the direct capture instead.
\<close>

definition encodeComposite ::
    "export_env \<Rightarrow> string \<Rightarrow> action list \<Rightarrow> action list \<times> (string + string) option" where
  "encodeComposite env fallbackDataUrl acts =
     (acts @ [CanvasToDataURL],
      case offscreenToDataURL env of
        Inl drawError \<Rightarrow> Some (Inr fallbackDataUrl)
      | Inr highQualityDataUrl \<Rightarrow>
          if length highQualityDataUrl < 10000 then Some (Inr fallbackDataUrl)
          else Some (Inr highQualityDataUrl))"

text \<open>
  Lines 291-369, the manual drawing inside its own try block: every failure returns
  the direct capture; a wait for an image that never settles leaves the whole
  operation pending.
\<close>

definition manualDraw ::
    "export_env \<Rightarrow> string \<Rightarrow> action list \<Rightarrow> action list \<times> (string + string) option" where
  "manualDraw env fallbackDataUrl acts =
     (case displayImage env of
        None \<Rightarrow> (acts, Some (Inr fallbackDataUrl))
      | Some im \<Rightarrow>
          (case ensureImageLoaded (Some im) of
             None \<Rightarrow> (acts, None)
           | Some (Inl drawError) \<Rightarrow> (acts, Some (Inr fallbackDataUrl))
           | Some (Inr _) \<Rightarrow>
               (case drawPhotoThrows env of
                  Some drawError \<Rightarrow> (acts, Some (Inr fallbackDataUrl))
                | None \<Rightarrow>
                    (case calendarImage env of
                       None \<Rightarrow> encodeComposite env fallbackDataUrl acts
                     | Some cal \<Rightarrow>
                         (case ensureImageLoaded (Some cal) of
                            None \<Rightarrow> (acts, None)
                          | Some (Inl drawError) \<Rightarrow> (acts, Some (Inr fallbackDataUrl))
                          | Some (Inr _) \<Rightarrow>
                              (case drawCalendarThrows env of
                                 Some drawError \<Rightarrow> (acts, Some (Inr fallbackDataUrl))
                               | None \<Rightarrow> encodeComposite env fallbackDataUrl acts))))))"

text \<open>
  \<^verbatim>\<open>captureCanvas\<close>, lines 224-387: the actions it performs and how its promise
  ends: \<^term>\<open>Some (Inr url)\<close> returned, \<^term>\<open>Some (Inl e)\<close> thrown, \<^term>\<open>None\<close>
  never settled.
\<close>

definition captureCanvas ::
    "export_env \<Rightarrow> real \<Rightarrow> action list \<times> (string + string) option" where
  "captureCanvas env pixelRatio =
     (case directCapture env of
        Inl stageExportError \<Rightarrow> retryExport env pixelRatio [StageToDataURL pixelRatio]
      | Inr dataUrl \<Rightarrow>
          if \<not> (isMobile env \<or> isIOSDevice env \<or> isAndroidDevice env)
          then ([StageToDataURL pixelRatio], Some (Inr dataUrl))
          else
            (case setupThrows env of
               Some stageExportError \<Rightarrow>
                 retryExport env pixelRatio [StageToDataURL pixelRatio]
             | None \<Rightarrow>
                 if \<not> ctx env then ([StageToDataURL pixelRatio], Some (Inr dataUrl))
                 else manualDraw env dataUrl [StageToDataURL pixelRatio]))"

datatype outcome = Resolved string | Rejected string

record render =
  actions :: "action list"
  settled :: "outcome option"

text \<open>
  \<^verbatim>\<open>getCleanRender\<close>, lines 182-414, called while the state \<^verbatim>\<open>isSelected\<close>
  has the given value: the actions performed and how the returned promise settles
  (\<^term>\<open>None\<close>: it stays pending).
\<close>

definition getCleanRender :: "export_env \<Rightarrow> bool \<Rightarrow> render" where
  "getCleanRender env isSelected =
     (if \<not> stageRef env
      then \<lparr>actions = [], settled = Some (Rejected ''Stage reference is null'')\<rparr>
      else
        (let wasSelected = isSelected;
             deselect = (if wasSelected then [SetIsSelected False] else []);
             restore = (if wasSelected then [SetIsSelected True] else []);
             pixelRatio = exportPixelRatio (isMobile env) (innerWidth env)
         in case callbackThrows env of
              Some error \<Rightarrow>
                \<lparr>actions = deselect @ [UiTimer] @ restore, settled = Some (Rejected error)\<rparr>
            | None \<Rightarrow>
                (case captureCanvas env pixelRatio of
                   (acts, None) \<Rightarrow>
                     \<lparr>actions = deselect @ [UiTimer] @ acts, settled = None\<rparr>
                 | (acts, Some (Inr dataUrl)) \<Rightarrow>
                     \<lparr>actions = deselect @ [UiTimer] @ acts @ restore,
                      settled = Some (Resolved dataUrl)\<rparr>
                 | (acts, Some (Inl error)) \<Rightarrow>
                     \<lparr>actions = deselect @ [UiTimer] @ acts @ restore,
                      settled = Some (Rejected error)\<rparr>)))"

text \<open>The value of \<^verbatim>\<open>isSelected\<close> after a sequence of actions.\<close>

fun selectionAfter :: "bool \<Rightarrow> action list \<Rightarrow> bool" where
  "selectionAfter sel [] = sel"
| "selectionAfter sel (SetIsSelected b # acts) = selectionAfter b acts"
| "selectionAfter sel (_ # acts) = selectionAfter sel acts"

text \<open>
  A sequence of actions captures cleanly when every capture (of the stage or of the
  off-screen canvas) happens while the overlay is deselected and after a UI timer that
  ran since the selection last changed. The arguments are the selection and whether
  such a timer has run.
\<close>

fun capturesClean :: "bool \<Rightarrow> bool \<Rightarrow> action list \<Rightarrow> bool" where
  "capturesClean sel waited [] = True"
| "capturesClean sel waited (SetIsSelected b # acts) = capturesClean b False acts"
| "capturesClean sel waited (UiTimer # acts) = capturesClean sel True acts"
| "capturesClean sel waited (StageToDataURL _ # acts) =
     (\<not> sel \<and> waited \<and> capturesClean sel waited acts)"
| "capturesClean sel waited (CanvasToDataURL # acts) =
     (\<not> sel \<and> waited \<and> capturesClean sel waited acts)"

fun is_capture :: "action \<Rightarrow> bool" where
  "is_capture (StageToDataURL _) = True"
| "is_capture CanvasToDataURL = True"
| "is_capture _ = False"

text \<open>
  An export on an Android phone 390 wide, with both images loaded, whose off-screen
  canvas encodes to a data URL of a few characters.
\<close>

definition phoneExport :: export_env where
  "phoneExport =
     \<lparr>stageRef = True, isMobile = True, isIOSDevice = False, isAndroidDevice = True,
      innerWidth = 390, callbackThrows = None,
      directCapture = Inr ''data:image/png;base64,DIRECT'',
      retryCapture = Inr ''data:image/png;base64,RETRY'',
      setupThrows = None, ctx = True,
      displayImage = Some \<lparr>complete = True, naturalWidth = 1200,
                             image_event = NoEvent, completeAtTimeout = True\<rparr>,
      drawPhotoThrows = None,
      calendarImage = Some \<lparr>complete = True, naturalWidth = 4000,
                              image_event = NoEvent, completeAtTimeout = True\<rparr>,
      drawCalendarThrows = None,
      offscreenToDataURL = Inr ''data:,''\<rparr>"

section \<open>Calendar rasterizer\<close>

text \<open>
  The day grid of \<^verbatim>\<open>renderCalendar\<close> (\<^verbatim>\<open>CalendarGenerator\<close>, lines 153-203).
  The model keeps, for every \<^verbatim>\<open>fillText\<close> of a day number, the row and column of
  its cell and the number; fonts, colours and pixel positions are left out. The two
  values read from \<^verbatim>\<open>Date\<close> are arguments; \<^term>\<open>None\<close> stands for NaN, with
  which every comparison is false.
\<close>

definition dayCell :: "int option \<Rightarrow> int option \<Rightarrow> nat \<Rightarrow> nat \<Rightarrow> (nat \<times> nat \<times> int) list" where
  "dayCell firstDay daysInMonth row col =
     (case firstDay of
        None \<Rightarrow> []
      | Some fd \<Rightarrow>
          (let dayNum = int row * 7 + int col - fd + 1
           in case daysInMonth of
                None \<Rightarrow> []
              | Some dm \<Rightarrow> if dayNum > 0 \<and> dayNum \<le> dm then [(row, col, dayNum)] else []))"

definition dayGrid :: "int option \<Rightarrow> int option \<Rightarrow> (nat \<times> nat \<times> int) list" where
  "dayGrid firstDay daysInMonth =
     concat (map (\<lambda>row. concat (map (\<lambda>col. dayCell firstDay daysInMonth row col) [0..<7]))
               [0..<6])"

subsection \<open>The platform's Date\<close>

text \<open>
  \<^verbatim>\<open>Date\<close> is a built-in of the platform, modelled after the ECMAScript
  specification (the abstract operations of its section on Date objects, under their
  names there). A time value is a number of milliseconds since the beginning of
  1 January 1970, UTC; the invalid date, whose time value is NaN, is \<^term>\<open>None\<close>. The
  calendar is the proleptic Gregorian one. The time zone of the platform is an argument:
  a zone \<open>z\<close> gives \<open>LocalTZA(t, isUTC)\<close>, the offset of local time from UTC in
  milliseconds, read at the UTC time \<open>t\<close> when \<open>isUTC\<close> holds and at the local time
  \<open>t\<close> when it does not.
\<close>

type_synonym zone = "int \<Rightarrow> bool \<Rightarrow> int"

definition msPerDay :: int where
  "msPerDay = 86400000"

definition Day :: "int \<Rightarrow> int" where
  "Day t = t div msPerDay"

definition InLeapYear :: "int \<Rightarrow> bool" where
  "InLeapYear yr = (yr mod 4 = 0 \<and> (yr mod 100 \<noteq> 0 \<or> yr mod 400 = 0))"

definition DayFromYear :: "int \<Rightarrow> int" where
  "DayFromYear yr =
     365 * (yr - 1970) + (yr - 1969) div 4 - (yr - 1901) div 100 + (yr - 1601) div 400"

text \<open>
  \<open>YearFromTime\<close>: the largest year that begins at or before \<open>t\<close>. The year is
  estimated from the mean length of a year, 146097 / 400 days, and corrected by one
  (lemma \<open>YearFromTime_bracket\<close> below shows that this is the year).
\<close>

definition YearFromTime :: "int \<Rightarrow> int" where
  "YearFromTime t =
     (let d = Day t;
          yr = 1970 + (400 * d) div 146097
      in if d < DayFromYear yr then yr - 1
         else if DayFromYear (yr + 1) \<le> d then yr + 1
         else yr)"

definition DayWithinYear :: "int \<Rightarrow> int" where
  "DayWithinYear t = Day t - DayFromYear (YearFromTime t)"

definition MonthFromTime :: "int \<Rightarrow> int" where
  "MonthFromTime t =
     (let dy = DayWithinYear t;
          leap = (if InLeapYear (YearFromTime t) then 1 else 0)
      in if dy < 31 then 0
         else if dy < 59 + leap then 1
         else if dy < 90 + leap then 2
         else if dy < 120 + leap then 3
         else if dy < 151 + leap then 4
         else if dy < 181 + leap then 5
         else if dy < 212 + leap then 6
         else if dy < 243 + leap then 7
         else if dy < 273 + leap then 8
         else if dy < 304 + leap then 9
         else if dy < 334 + leap then 10
         else 11)"

definition DateFromTime :: "int \<Rightarrow> int" where
  "DateFromTime t =
     (let dy = DayWithinYear t;
          leap = (if InLeapYear (YearFromTime t) then 1 else 0);
          mn = MonthFromTime t
      in if mn = 0 then dy + 1
         else if mn = 1 then dy - 30
         else if mn = 2 then dy - 58 - leap
         else if mn = 3 then dy - 89 - leap
         else if mn = 4 then dy - 119 - leap
         else if mn = 5 then dy - 150 - leap
         else if mn = 6 then dy - 180 - leap
         else if mn = 7 then dy - 211 - leap
         else if mn = 8 then dy - 242 - leap
         else if mn = 9 then dy - 272 - leap
         else if mn = 10 then dy - 303 - leap
         else dy - 333 - leap)"

definition WeekDay :: "int \<Rightarrow> int" where
  "WeekDay t = (Day t + 4) mod 7"

definition LocalTime :: "zone \<Rightarrow> int \<Rightarrow> int" where
  "LocalTime z t = t + z t True"

definition UTC :: "zone \<Rightarrow> int \<Rightarrow> int" where
  "UTC z t = t - z t False"

text \<open>The length of month \<open>mn\<close> (0 is January) of year \<open>yr\<close>.\<close>

definition DaysInMonth :: "int \<Rightarrow> int \<Rightarrow> int" where
  "DaysInMonth yr mn =
     (if mn = 1 then (if InLeapYear yr then 29 else 28)
      else if mn = 3 \<or> mn = 5 \<or> mn = 8 \<or> mn = 10 then 30
      else 31)"

text \<open>
  \<open>MakeDay\<close>: the day number of a year, a month (any integer; it carries into the
  year) and a day of the month (any integer). \<open>MakeDate\<close>: the time value of a day
  number and a time within the day.
\<close>

definition MakeDay :: "int \<Rightarrow> int \<Rightarrow> int \<Rightarrow> int" where
  "MakeDay yr month dt =
     (let ym = yr + month div 12;
          mn = month mod 12
      in DayFromYear ym + (\<Sum>k\<leftarrow>[0..<nat mn]. DaysInMonth ym (int k)) + dt - 1)"

definition MakeDate :: "int \<Rightarrow> int \<Rightarrow> int" where
  "MakeDate day time = day * msPerDay + time"

text \<open>
  \<open>TimeClip\<close>: a time value further than \<open>8.64 \<times> 10\<^sup>1\<^sup>5\<close> milliseconds, that is
  \<open>10\<^sup>8\<close> days, from the epoch is NaN.
\<close>

definition TimeClip :: "int \<Rightarrow> int option" where
  "TimeClip t = (if \<bar>t\<bar> \<le> 8640000000000000 then Some t else None)"

text \<open>
  The constructor \<^verbatim>\<open>new Date(year, month, date)\<close>: a year from 0 to 99 is read
  as 1900 + year, the three numbers are a local time, at midnight, and the time value is
  that local time converted to UTC and clipped.
\<close>

definition dateYear :: "int \<Rightarrow> int" where
  "dateYear year = (if 0 \<le> year \<and> year \<le> 99 then 1900 + year else year)"

definition newDate :: "zone \<Rightarrow> int \<Rightarrow> int \<Rightarrow> int \<Rightarrow> int option" where
  "newDate z year month dt =
     TimeClip (UTC z (MakeDate (MakeDay (dateYear year) month dt) 0))"

text \<open>
  \<^verbatim>\<open>getDay()\<close> and \<^verbatim>\<open>getDate()\<close>: the weekday (0 is Sunday) and the day of
  the month of the local time, NaN for the invalid date.
\<close>

definition getDay :: "zone \<Rightarrow> int option \<Rightarrow> int option" where
  "getDay z tv = map_option (\<lambda>t. WeekDay (LocalTime z t)) tv"

definition getDate :: "zone \<Rightarrow> int option \<Rightarrow> int option" where
  "getDate z tv = map_option (\<lambda>t. DateFromTime (LocalTime z t)) tv"

subsection \<open>The two values read from Date, and the grid\<close>

text \<open>Line 154, \<^verbatim>\<open>new Date(year, month, 1).getDay()\<close>.\<close>

definition firstDay :: "zone \<Rightarrow> int \<Rightarrow> int \<Rightarrow> int option" where
  "firstDay z year month = getDay z (newDate z year month 1)"

text \<open>Line 155, \<^verbatim>\<open>new Date(year, month + 1, 0).getDate()\<close>.\<close>

definition daysInMonth :: "zone \<Rightarrow> int \<Rightarrow> int \<Rightarrow> int option" where
  "daysInMonth z year month = getDate z (newDate z year (month + 1) 0)"

text \<open>
  The day numbers that \<^verbatim>\<open>renderCalendar\<close> draws for the props month and year, on
  a platform in the zone \<open>z\<close>.
\<close>

definition renderCalendar :: "zone \<Rightarrow> int \<Rightarrow> int \<Rightarrow> (nat \<times> nat \<times> int) list" where
  "renderCalendar z month year = dayGrid (firstDay z year month) (daysInMonth z year month)"

text \<open>
  Modelled from the spec: the weekday of the first day of a month in the civil calendar
  (0 is Sunday). The number of days of the month is \<^const>\<open>DaysInMonth\<close> above.
\<close>

definition firstWeekday :: "int \<Rightarrow> int \<Rightarrow> int" where
  "firstWeekday month yr = (MakeDay yr month 1 + 4) mod 7"

text \<open>
  The local midnight that begins a day is kept by the zone: the zone's offset there is
  at most a day, and the local time, converted to UTC and back, is on the same day (no
  change of the clock skips the day).
\<close>

definition keepsDay :: "zone \<Rightarrow> int \<Rightarrow> bool" where
  "keepsDay z day =
     (\<bar>z (MakeDate day 0) False\<bar> \<le> msPerDay
      \<and> Day (LocalTime z (UTC z (MakeDate day 0))) = day)"

text \<open>
  Two zones: UTC itself, and the zone of the island of Kiritimati since 1979, ten hours
  behind UTC until the end of 30 December 1994 and fourteen hours ahead of it from then
  on, so that the island had no 31 December 1994.
\<close>

definition utc :: zone where
  "utc t isUTC = 0"

definition kiritimati :: zone where
  "kiritimati t isUTC =
     (if isUTC then (if t < 788868000000 then - 36000000 else 50400000)
      else (if t < 788918400000 then - 36000000 else 50400000))"

section \<open>Resize bounds\<close>

lemma boundBoxFunc_floor:
  assumes "50 \<le> width oldBox" and "50 \<le> height oldBox"
  shows "50 \<le> width (boundBoxFunc ps oldBox newBox)
       \<and> 50 \<le> height (boundBoxFunc ps oldBox newBox)"
  using assms by (simp add: boundBoxFunc_def Let_def)

lemma fold_boundBoxFunc_floor:
  "50 \<le> width b \<Longrightarrow> 50 \<le> height b \<Longrightarrow>
   50 \<le> width (foldl (boundBoxFunc ps) b cs) \<and> 50 \<le> height (foldl (boundBoxFunc ps) b cs)"
  by (induction cs arbitrary: b) (simp_all add: boundBoxFunc_floor)

text \<open>
  C4. A candidate box narrower or lower than 50 is rejected: the bounds function returns
  the previous box, whatever it is, and offering the same candidate again to the box it
  returned gives the previous box once more.
\<close>

theorem boundBoxFunc_rejects_small:
  assumes "width newBox < 50 \<or> height newBox < 50"
  shows "boundBoxFunc ps oldBox newBox = oldBox
       \<and> boundBoxFunc ps (boundBoxFunc ps oldBox newBox) newBox = oldBox"
  using assms by (simp add: boundBoxFunc_def)

theorem boundBoxFunc_rejects_small_witness:
  "(width \<lparr>width = 30, height = 200, x = 10, y = 10, rotation = 0\<rparr> < 50
      \<or> height \<lparr>width = 30, height = 200, x = 10, y = 10, rotation = 0\<rparr> < 50)
   \<and> boundBoxFunc \<lparr>width = 800, height = 600\<rparr>
        \<lparr>width = 400, height = 350, x = 50, y = 50, rotation = 0\<rparr>
        \<lparr>width = 30, height = 200, x = 10, y = 10, rotation = 0\<rparr>
      = \<lparr>width = 400, height = 350, x = 50, y = 50, rotation = 0\<rparr>"
  using boundBoxFunc_rejects_small
    [of "\<lparr>width = 30, height = 200, x = 10, y = 10, rotation = 0\<rparr>"
        "\<lparr>width = 800, height = 600\<rparr>"
        "\<lparr>width = 400, height = 350, x = 50, y = 50, rotation = 0\<rparr>"]
  by simp

text \<open>
  C10. The 50-unit floor is preserved by every resize step: when the previous box is at
  least 50 wide and 50 high, so is the box the bounds function returns, whether it
  rejects the candidate, clamps it or passes it through.
\<close>

theorem boundBoxFunc_preserves_min_size:
  assumes "50 \<le> width oldBox" and "50 \<le> height oldBox"
  shows "50 \<le> width (boundBoxFunc ps oldBox newBox)
       \<and> 50 \<le> height (boundBoxFunc ps oldBox newBox)"
proof (cases "width newBox < 50 \<or> height newBox < 50")
  case True
  then have "boundBoxFunc ps oldBox newBox = oldBox"
    by (simp add: boundBoxFunc_def)
  with assms show ?thesis by simp
next
  case False
  then show ?thesis
    by (simp add: boundBoxFunc_def Let_def)
qed

theorem boundBoxFunc_preserves_min_size_witness:
  "50 \<le> width \<lparr>width = 400, height = 350, x = 50, y = 50, rotation = 0\<rparr>
   \<and> 50 \<le> height \<lparr>width = 400, height = 350, x = 50, y = 50, rotation = 0\<rparr>
   \<and> 50 \<le> width (boundBoxFunc \<lparr>width = 800, height = 600\<rparr>
        \<lparr>width = 400, height = 350, x = 50, y = 50, rotation = 0\<rparr>
        \<lparr>width = 60, height = 70, x = 780, y = -40, rotation = 0\<rparr>)
   \<and> 50 \<le> height (boundBoxFunc \<lparr>width = 800, height = 600\<rparr>
        \<lparr>width = 400, height = 350, x = 50, y = 50, rotation = 0\<rparr>
        \<lparr>width = 60, height = 70, x = 780, y = -40, rotation = 0\<rparr>)"
  using boundBoxFunc_preserves_min_size
    [of "\<lparr>width = 400, height = 350, x = 50, y = 50, rotation = 0\<rparr>"
        "\<lparr>width = 800, height = 600\<rparr>"
        "\<lparr>width = 60, height = 70, x = 780, y = -40, rotation = 0\<rparr>"]
  by simp

section \<open>Drag bounds\<close>

text \<open>
  What the clamp guarantees whatever the rounding: a position that is not negative, an
  unchanged size, and a position that is at most the room it computed or a right (lower)
  edge that it computed to be inside.
\<close>

lemma keep_origin:
  "0 \<le> x (keepCalendarWithinBounds rnd ps a) \<and> 0 \<le> y (keepCalendarWithinBounds rnd ps a)"
  by (simp add: keepCalendarWithinBounds_def Let_def)

lemma keep_size:
  "width (keepCalendarWithinBounds rnd ps a) = width a"
  "height (keepCalendarWithinBounds rnd ps a) = height a"
  by (simp_all add: keepCalendarWithinBounds_def Let_def)

lemma keep_room_x:
  "x (keepCalendarWithinBounds rnd ps a) \<le> max 0 (rnd (width ps - width a))
   \<or> rnd (x (keepCalendarWithinBounds rnd ps a) + width a) \<le> width ps"
  by (simp add: keepCalendarWithinBounds_def Let_def)

lemma keep_room_y:
  "y (keepCalendarWithinBounds rnd ps a) \<le> max 0 (rnd (height ps - height a))
   \<or> rnd (y (keepCalendarWithinBounds rnd ps a) + height a) \<le> height ps"
  by (simp add: keepCalendarWithinBounds_def Let_def)

text \<open>Without rounding, an overlay that is not larger than the stage ends up inside it.\<close>

lemma keep_fit_x:
  "width a \<le> width ps \<Longrightarrow> x (keepCalendarWithinBounds exact ps a) + width a \<le> width ps"
  by (simp add: keepCalendarWithinBounds_def exact_def Let_def)

lemma keep_fit_y:
  "height a \<le> height ps \<Longrightarrow> y (keepCalendarWithinBounds exact ps a) + height a \<le> height ps"
  by (simp add: keepCalendarWithinBounds_def exact_def Let_def)

text \<open>
  C9. The drag clamp changes nothing but the position: its result is its argument with
  new \<^verbatim>\<open>x\<close> and \<^verbatim>\<open>y\<close> fields, so width, height and every further field of
  the record (here the extension part \<^term>\<open>rect.more\<close>, which holds \<^verbatim>\<open>id\<close> for
  the overlay attributes) are returned as they came, whatever the rounding.
\<close>

theorem keepCalendarWithinBounds_frame:
  "keepCalendarWithinBounds rnd ps a
     = a\<lparr>x := x (keepCalendarWithinBounds rnd ps a), y := y (keepCalendarWithinBounds rnd ps a)\<rparr>
   \<and> width (keepCalendarWithinBounds rnd ps a) = width a
   \<and> height (keepCalendarWithinBounds rnd ps a) = height a
   \<and> rect.more (keepCalendarWithinBounds rnd ps a) = rect.more a"
  by (simp add: keepCalendarWithinBounds_def Let_def)

section \<open>The overlay invariants under gestures\<close>

lemma drag_kept:
  assumes "overlay_sized e"
  shows "overlay_kept rnd (step rnd e (DragEnd tx ty))"
proof -
  let ?a = "(calendarAttrs e)\<lparr>x := tx, y := ty\<rparr>"
  show ?thesis
    using assms keep_origin [of rnd "photoSize e" ?a]
      keep_room_x [of rnd "photoSize e" ?a] keep_room_y [of rnd "photoSize e" ?a]
    by (simp add: overlay_kept_def overlay_sized_def onDragEnd_def Let_def keep_size)
qed

text \<open>
  On commit of a resize the size is capped by the stage and the position is clamped; the
  size is at least 50 only if the scaled size of the node, as the commit computes it, is.
\<close>

lemma transformEnd_kept:
  assumes "overlay_sized e"
    and "50 \<le> rnd (node_width nd * scaleX nd)" and "50 \<le> rnd (node_height nd * scaleY nd)"
  shows "overlay_kept rnd (step rnd e (TransformEnd nd))"
proof -
  let ?a = "(calendarAttrs e)\<lparr>x := node_x nd, y := node_y nd,
               width := min (rnd (node_width nd * scaleX nd)) (width (photoSize e)),
               height := min (rnd (node_height nd * scaleY nd)) (height (photoSize e))\<rparr>"
  show ?thesis
    using assms keep_origin [of rnd "photoSize e" ?a]
      keep_room_x [of rnd "photoSize e" ?a] keep_room_y [of rnd "photoSize e" ?a]
    by (simp add: overlay_kept_def overlay_sized_def handleTransformEnd_def Let_def keep_size)
qed

lemma step_kept: "overlay_sized e \<Longrightarrow> floor_kept rnd ev \<Longrightarrow> overlay_kept rnd (step rnd e ev)"
  by (cases ev) (simp_all only: floor_kept.simps drag_kept transformEnd_kept)

lemma kept_sized: "overlay_kept rnd e \<Longrightarrow> overlay_sized e"
  by (simp add: overlay_kept_def)

lemma kept_exact: "overlay_kept exact e \<Longrightarrow> overlay_ok e"
  by (auto simp add: overlay_kept_def overlay_sized_def overlay_ok_def exact_def)

text \<open>
  Whatever the state before it, a gesture commits a position that is not negative.
\<close>

lemma gesture_origin:
  "is_gesture ev \<Longrightarrow>
     0 \<le> x (calendarAttrs (step rnd e ev)) \<and> 0 \<le> y (calendarAttrs (step rnd e ev))"
  by (cases ev) (simp_all add: onDragEnd_def handleTransformEnd_def Let_def keep_origin)


text \<open>
  The re-centring does not keep the overlay inside a wide stage either: a photo of 1000
  by 100 in a window of 2000 by 1000 gives an overlay of 600 by 510 on a stage of 1000
  by 100, which no drag can bring inside.
\<close>

lemma wide_photo_overlay:
  "calendarAttrs (last (commits exact initialEditor
       [PhotoLoaded False 2000 1000 \<lparr>width = 1000, height = 100\<rparr>, DragEnd 200 (- 205)]))
     = \<lparr>width = 600, height = 510, x = 200, y = 0, id = ''calendar''\<rparr>"
  by (simp add: initialEditor_def photoEffect_def onDragEnd_def
      keepCalendarWithinBounds_def exact_def Let_def)

text \<open>
  Nor does the commit of a resize apply the floor of 50: it takes the scaled size of the
  node as it finds it. The transformer keeps the boxes it proposes at 50 or more
  (\<open>boundBoxFunc\<close>), but the commit multiplies the node's width by its scale again, and
  the product of the two doubles can round below 50 (194 times the double nearest to
  50 / 194 is 49.99999999999999).
\<close>

lemma transformEnd_no_floor:
  "width (calendarAttrs (step exact initialEditor
       (TransformEnd \<lparr>node_x = 50, node_y = 50, node_width = 400, node_height = 350,
                      scaleX = 1 / 10, scaleY = 1 / 10\<rparr>))) = 40"
  by (simp add: initialEditor_def handleTransformEnd_def keepCalendarWithinBounds_def
      exact_def Let_def)



text \<open>
  Without rounding these are the six invariants of the specification, among them
  \<open>x + width \<le> stageWidth\<close> and \<open>y + height \<le> stageHeight\<close>.
\<close>

lemma overlay_invariants_exact:
  assumes "overlay_sized e" and "list_all (floor_kept exact) evs"
  shows "list_all overlay_ok (commits exact e evs)"
  using assms
proof (induction evs arbitrary: e)
  case Nil
  show ?case by simp
next
  case (Cons ev evs)
  then have k: "overlay_kept exact (step exact e ev)"
    by (simp add: step_kept)
  then have "overlay_sized (step exact e ev)" "overlay_ok (step exact e ev)"
    by (simp_all add: kept_sized kept_exact)
  with Cons show ?case by simp
qed

section \<open>Month navigation\<close>

text \<open>
  C5. For a month in 0..11 and a step of +1 or -1: December forward is January of the
  next year, January backward is December of the previous year, and in every other case
  the step is added to the month and the year stays.
\<close>

theorem changeMonth_cyclic:
  assumes "0 \<le> month" and "month \<le> 11" and "delta = 1 \<or> delta = - 1"
  shows "changeMonth (month, year) delta =
           (if month = 11 \<and> delta = 1 then (0, year + 1)
            else if month = 0 \<and> delta = - 1 then (11, year - 1)
            else (month + delta, year))"
  using assms by (auto simp add: changeMonth_def Let_def)

theorem changeMonth_cyclic_witness:
  "changeMonth (11, 2026) 1 = (0, 2027) \<and> changeMonth (0, 2026) (- 1) = (11, 2025)
   \<and> changeMonth (5, 2026) 1 = (6, 2026)"
  using changeMonth_cyclic [of 11 1 2026] changeMonth_cyclic [of 0 "- 1" 2026]
    changeMonth_cyclic [of 5 1 2026]
  by simp

section \<open>Canvas size\<close>

subsection \<open>Numbers that differ by a small factor\<close>

lemma near_refl: "1 \<le> r \<Longrightarrow> 0 \<le> u \<Longrightarrow> near r u u"
  unfolding near_def using mult_left_mono [of 1 r u] by simp

lemma near_sym: "near r u v \<Longrightarrow> near r v u"
  by (simp add: near_def)

lemma near_trans:
  assumes "near r u v" and "near s v w" and "0 \<le> r" and "0 \<le> s"
  shows "near (r * s) u w"
proof -
  have "w \<le> v * s" "v \<le> u * r" "u \<le> v * r" "v \<le> w * s"
    using assms by (simp_all add: near_def)
  then have "w \<le> (u * r) * s" "u \<le> (w * s) * r"
    using assms(3,4) by (meson mult_right_mono order_trans)+
  then show ?thesis
    by (simp add: near_def mult_ac)
qed

lemma near_mono:
  assumes "near r u v" and "r \<le> s" and "0 \<le> u" and "0 \<le> v"
  shows "near s u v"
proof -
  have "u * r \<le> u * s" "v * r \<le> v * s"
    using assms by (simp_all add: mult_left_mono)
  then show ?thesis
    using assms(1) by (simp add: near_def)
qed

lemma near_mult:
  assumes "near r a b" and "near s c d"
    and "0 \<le> a" and "0 \<le> b" and "0 \<le> c" and "0 \<le> d" and "0 \<le> r" and "0 \<le> s"
  shows "near (r * s) (a * c) (b * d)"
proof -
  have "b * d \<le> (a * r) * (c * s)" "a * c \<le> (b * r) * (d * s)"
    using assms by (simp_all add: near_def mult_mono)
  then show ?thesis
    by (simp add: near_def mult_ac)
qed

lemma near_divide:
  assumes "near s c d" and "0 < c" and "0 < d" and "0 \<le> k"
  shows "near s (k / c) (k / d)"
proof -
  have cd: "c \<le> d * s" "d \<le> c * s"
    using assms by (simp_all add: near_def)
  have "k * c \<le> k * (d * s)" "k * d \<le> k * (c * s)"
    using cd assms(4) by (simp_all add: mult_left_mono)
  then have "k / d \<le> k / c * s" "k / c \<le> k / d * s"
    using assms(2,3) by (simp_all add: field_simps)
  then show ?thesis
    by (simp add: near_def)
qed

lemma near_max:
  assumes "near r a b" and "near r c d" and "0 \<le> r"
  shows "near r (max a c) (max b d)"
proof -
  have "a * r \<le> max a c * r" "c * r \<le> max a c * r" "b * r \<le> max b d * r" "d * r \<le> max b d * r"
    using assms(3) by (simp_all add: mult_right_mono)
  then show ?thesis
    using assms(1,2) by (simp add: near_def)
qed

lemma near_min:
  assumes "near r a b" and "near r c d" and "0 \<le> r"
  shows "near r (min a c) (min b d)"
proof -
  have "min a c * r \<le> a * r" "min a c * r \<le> c * r" "min b d * r \<le> b * r" "min b d * r \<le> d * r"
    using assms(3) by (simp_all add: mult_right_mono)
  moreover have "min a c * r = a * r \<or> min a c * r = c * r"
    and "min b d * r = b * r \<or> min b d * r = d * r"
    by (simp_all add: min_def)
  ultimately show ?thesis
    using assms(1,2) unfolding near_def by (simp add: min_le_iff_disj) linarith
qed

subsection \<open>One rounding\<close>

lemma roundoff_ge: "1 \<le> roundoff" "0 \<le> roundoff" "0 < roundoff"
  by (simp_all add: roundoff_def)

lemma roundoff_4: "roundoff * roundoff * (roundoff * roundoff) \<le> 1 + 1 / 10 ^ 8"
  by (simp add: roundoff_def)

lemma rnd_near:
  assumes "accurate rnd" and "1 / 10 ^ 12 \<le> v" and "v \<le> 10 ^ 19"
  shows "near roundoff (rnd v) v"
proof -
  define t where "t = v / 2 ^ 53"
  have "1 / 2 ^ 100 \<le> v" "v \<le> 2 ^ 100"
    using assms(2,3) by simp_all
  with assms(1) have "\<bar>rnd v - v\<bar> \<le> t"
    by (simp add: accurate_def t_def)
  then have "rnd v - v \<le> t" and "v - rnd v \<le> t"
    by linarith+
  moreover have "v = 9007199254740992 * t"
    by (simp add: t_def)
  moreover have "0 \<le> v"
    using assms(2) by simp
  ultimately have "v * 1000000000 \<le> rnd v * 1000000001"
    and "rnd v * 1000000000 \<le> v * 1000000001"
    by linarith+
  then show ?thesis
    by (simp add: near_def roundoff_def field_simps)
qed

lemma near_bounds:
  assumes "near roundoff u v" and "lo * 2 \<le> v" and "v * 2 \<le> hi" and "0 \<le> v"
  shows "lo \<le> u \<and> u \<le> hi"
proof -
  have "v * 1000000000 \<le> u * 1000000001" and "u * 1000000000 \<le> v * 1000000001"
    using assms(1) by (simp_all add: near_def roundoff_def field_simps)
  then show ?thesis
    using assms(2-) by linarith
qed

subsection \<open>The fitted size\<close>

lemma min_quotients:
  fixes a b :: real
  assumes "0 < a" and "0 < b"
  shows "min (4096 / a) (4096 / b) = 4096 / max a b"
  using assms by (simp add: min_def max_def field_simps)

lemma fitted_fitFactor:
  assumes "0 < a" and "0 < b"
  shows "a * fitFactor a b = fitted a b"
proof (cases "a > 4096 \<or> b > 4096")
  case True
  then have "max 4096 (max a b) = max a b"
    by (auto simp add: max_def)
  with True show ?thesis
    by (simp add: fitFactor_def fitted_def min_quotients [OF assms])
next
  case False
  then have "max 4096 (max a b) = 4096"
    by (auto simp add: max_def)
  with False show ?thesis
    by (simp add: fitFactor_def fitted_def)
qed

lemma fitted_le:
  assumes "0 < a" and "0 < b"
  shows "0 < fitted a b \<and> fitted a b \<le> 4096"
proof -
  define m where "m = max 4096 (max a b)"
  have m: "a \<le> m" "0 < m"
    by (simp_all add: m_def)
  then have "a * 4096 \<le> 4096 * m"
    by simp
  then have "a * (4096 / m) \<le> 4096"
    using m(2) by (simp add: field_simps)
  moreover have "0 < a * (4096 / m)"
    using assms(1) m(2) by simp
  ultimately show ?thesis
    by (simp add: fitted_def m_def)
qed

text \<open>The computed final width, from the two rounded targets.\<close>

lemma scaled_near:
  assumes acc: "accurate rnd"
    and nA: "near roundoff A a" and nB: "near roundoff B b"
    and a: "1 / 10 ^ 6 \<le> a" "a \<le> 10 ^ 7" and b: "1 / 10 ^ 6 \<le> b" "b \<le> 10 ^ 7"
  shows "near (roundoff * roundoff * (roundoff * roundoff))
           (if A > 4096 \<or> B > 4096
            then rnd (A * min (rnd (4096 / A)) (rnd (4096 / B))) else A)
           (fitted a b)"
proof -
  note r = roundoff_ge
  have a0: "0 \<le> a" "0 < a" and b0: "0 \<le> b" "0 < b"
    using a b by simp_all
  have A: "1 / 10 ^ 7 \<le> A \<and> A \<le> 10 ^ 8"
    using a a0 by (intro near_bounds [OF nA]) simp_all
  have B: "1 / 10 ^ 7 \<le> B \<and> B \<le> 10 ^ 8"
    using b b0 by (intro near_bounds [OF nB]) simp_all
  have A0: "0 < A" "0 \<le> A" and B0: "0 < B" "0 \<le> B"
    using A B by simp_all
  define M where "M = max 4096 (max A B)"
  define m where "m = max 4096 (max a b)"
  have M0: "0 < M" "4096 \<le> M" "M \<le> 10 ^ 8" and m0: "0 < m"
    using A B by (simp_all add: M_def m_def)
  have "near roundoff M m"
    unfolding M_def m_def using nA nB r
    by (intro near_max near_refl) simp_all
  then have "near roundoff (4096 / M) (4096 / m)"
    using M0 m0 by (intro near_divide) simp_all
  with nA have "near (roundoff * roundoff) (A * (4096 / M)) (a * (4096 / m))"
    using A0 a0 M0 m0 r by (intro near_mult) simp_all
  then have G: "near (roundoff * roundoff) (A * (4096 / M)) (fitted a b)"
    by (simp add: fitted_def m_def)
  have G0: "0 \<le> A * (4096 / M)" "0 \<le> fitted a b"
    using A0 M0 fitted_le [OF a0(2) b0(2)] by simp_all
  have rr: "roundoff * roundoff \<le> roundoff * roundoff * (roundoff * roundoff)"
    by (simp add: roundoff_def)
  show ?thesis
  proof (cases "A > 4096 \<or> B > 4096")
    case False
    then have "M = 4096"
      by (auto simp add: M_def max_def)
    with G have "near (roundoff * roundoff) A (fitted a b)"
      by simp
    from near_mono [OF this rr A0(2) G0(2)] False show ?thesis
      by simp
  next
    case True
    then have MM: "M = max A B"
      by (auto simp add: M_def max_def)
    define q where "q = 4096 / M"
    have q: "4096 / 10 ^ 8 \<le> q" "q \<le> 1" "0 \<le> q"
      using M0 by (simp_all add: q_def field_simps)
    have qA: "4096 / 10 ^ 8 \<le> 4096 / A" "4096 / A \<le> 4096 * 10 ^ 7"
      and qB: "4096 / 10 ^ 8 \<le> 4096 / B" "4096 / B \<le> 4096 * 10 ^ 7"
      using A B A0 B0 by (simp_all add: field_simps)
    have "near roundoff (rnd (4096 / A)) (4096 / A)"
      using qA by (intro rnd_near [OF acc]) simp_all
    moreover have "near roundoff (rnd (4096 / B)) (4096 / B)"
      using qB by (intro rnd_near [OF acc]) simp_all
    ultimately have "near roundoff (min (rnd (4096 / A)) (rnd (4096 / B)))
        (min (4096 / A) (4096 / B))"
      using r by (intro near_min) simp_all
    then have sf: "near roundoff (min (rnd (4096 / A)) (rnd (4096 / B))) q"
      by (simp add: min_quotients [OF A0(1) B0(1)] q_def MM)
    define sf where "sf = min (rnd (4096 / A)) (rnd (4096 / B))"
    have "4096 / 10 ^ 8 / 2 * 2 \<le> q" and "q * 2 \<le> 2"
      using q(1,2) by simp_all
    from near_bounds [OF sf this q(3)] have sfb: "4096 / 10 ^ 8 / 2 \<le> sf \<and> sf \<le> 2"
      by (simp only: sf_def)
    have "near 1 A A"
      using A0 by (intro near_refl) simp_all
    with sf have P: "near roundoff (A * sf) (A * q)"
      using A0 q sfb r near_mult [of 1 A A roundoff sf q] by (simp add: sf_def)
    have "1 / 10 ^ 7 * (4096 / 10 ^ 8 / 2) \<le> A * sf"
      using A sfb by (intro mult_mono) simp_all
    moreover have "A * sf \<le> 10 ^ 8 * 2"
      using A sfb A0 by (intro mult_mono) simp_all
    ultimately have "near roundoff (rnd (A * sf)) (A * sf)"
      by (intro rnd_near [OF acc]) simp_all
    from near_trans [OF this P] have "near (roundoff * roundoff) (rnd (A * sf)) (A * q)"
      using r by simp
    from near_trans [OF this G [folded q_def]]
    have "near (roundoff * roundoff * (roundoff * roundoff)) (rnd (A * sf)) (fitted a b)"
      using r by simp
    with True show ?thesis
      by (simp add: sf_def)
  qed
qed

lemma near_close:
  assumes "near r F W" and "1 \<le> r" and "r \<le> 1 + 1 / 10 ^ 8" and "0 < W" and "W \<le> 4096"
  shows "0 < F \<and> F < 4097 \<and> F \<le> W + 1 / 1000 \<and> W \<le> F + 1 / 1000"
proof -
  have n: "W \<le> F * r" "F \<le> W * r"
    using assms(1) by (simp_all add: near_def)
  have F0: "0 < F"
  proof (rule ccontr)
    assume "\<not> 0 < F"
    then have "F * r \<le> 0"
      using assms(2) by (simp add: mult_nonpos_nonneg)
    with n(1) assms(4) show False
      by simp
  qed
  have "W * r \<le> W * (1 + 1 / 10 ^ 8)"
    using assms(3,4) by (intro mult_left_mono) simp_all
  with n(2) have 1: "F \<le> W + W / 10 ^ 8"
    by (simp add: algebra_simps)
  have "F * r \<le> F * (1 + 1 / 10 ^ 8)"
    using assms(3) F0 by (intro mult_left_mono) simp_all
  with n(1) have 2: "W \<le> F + F / 10 ^ 8"
    by (simp add: algebra_simps)
  define u where "u = W / 10 ^ 8"
  define v where "v = F / 10 ^ 8"
  have "W = 100000000 * u" "F = 100000000 * v"
    by (simp_all add: u_def v_def)
  with 1 2 F0 assms(4,5) show ?thesis
    unfolding u_def [symmetric] v_def [symmetric] by linarith
qed

lemma floor_close:
  assumes "0 < F" and "F < 4097" and "F \<le> W + 1 / 1000" and "W \<le> F + 1 / 1000"
  shows "0 \<le> \<lfloor>F\<rfloor> \<and> \<lfloor>F\<rfloor> \<le> 4096
         \<and> W - 1001 / 1000 < real_of_int \<lfloor>F\<rfloor> \<and> real_of_int \<lfloor>F\<rfloor> \<le> W + 1 / 1000"
proof -
  have "0 \<le> \<lfloor>F\<rfloor>"
    using assms(1) by simp
  moreover have "\<lfloor>F\<rfloor> < 4097"
    using assms(2) by (simp add: floor_less_iff)
  moreover have "real_of_int \<lfloor>F\<rfloor> \<le> F" "F < real_of_int \<lfloor>F\<rfloor> + 1"
    by linarith+
  ultimately show ?thesis
    using assms(3,4) by linarith
qed

lemma exportPixelRatio_range: "3 \<le> exportPixelRatio m w \<and> exportPixelRatio m w \<le> 8"
  by (simp add: exportPixelRatio_def)

lemma target_range:
  fixes s :: real
  assumes "1 / 10 ^ 6 \<le> s" and "s \<le> 10 ^ 6" and "3 \<le> pr" and "pr \<le> 8"
  shows "1 / 10 ^ 6 \<le> s * pr \<and> s * pr \<le> 10 ^ 7"
proof -
  have "1 / 10 ^ 6 * 1 \<le> s * pr"
    using assms by (intro mult_mono) simp_all
  moreover have "s * pr \<le> 10 ^ 6 * 8"
    using assms by (intro mult_mono) simp_all
  ultimately show ?thesis
    by simp
qed

lemma fitFactor_commute: "fitFactor b a = fitFactor a b"
  by (auto simp add: fitFactor_def min.commute)

text \<open>The computed final size, within rounding of the size the claim states.\<close>

lemma finalSize_near:
  assumes acc: "accurate rnd"
    and sw: "1 / 10 ^ 6 \<le> sw" "sw \<le> 10 ^ 6" and sh: "1 / 10 ^ 6 \<le> sh" "sh \<le> 10 ^ 6"
    and pr: "3 \<le> pr" "pr \<le> 8"
  shows "near (roundoff * roundoff * (roundoff * roundoff))
           (fst (finalSize rnd sw sh pr)) (fst (fittedSize sw sh pr))"
    and "near (roundoff * roundoff * (roundoff * roundoff))
           (snd (finalSize rnd sw sh pr)) (snd (fittedSize sw sh pr))"
    and "0 < fst (fittedSize sw sh pr) \<and> fst (fittedSize sw sh pr) \<le> 4096"
    and "0 < snd (fittedSize sw sh pr) \<and> snd (fittedSize sw sh pr) \<le> 4096"
proof -
  define a where "a = sw * pr"
  define b where "b = sh * pr"
  define A where "A = rnd a"
  define B where "B = rnd b"
  have a: "1 / 10 ^ 6 \<le> a" "a \<le> 10 ^ 7" and b: "1 / 10 ^ 6 \<le> b" "b \<le> 10 ^ 7"
    using target_range [OF sw pr] target_range [OF sh pr] by (simp_all add: a_def b_def)
  have a0: "0 < a" and b0: "0 < b"
    using a(1) b(1) by simp_all
  have nA: "near roundoff A a"
    unfolding A_def using a by (intro rnd_near [OF acc]) simp_all
  have nB: "near roundoff B b"
    unfolding B_def using b by (intro rnd_near [OF acc]) simp_all
  have "1 / 10 ^ 7 \<le> A \<and> A \<le> 10 ^ 8"
    using a a0 by (intro near_bounds [OF nA]) simp_all
  then have A0: "A \<noteq> 0" by auto
  have "1 / 10 ^ 7 \<le> B \<and> B \<le> 10 ^ 8"
    using b b0 by (intro near_bounds [OF nB]) simp_all
  then have B0: "B \<noteq> 0" by auto
  have fs: "fst (finalSize rnd sw sh pr) =
      (if A > 4096 \<or> B > 4096 then rnd (A * min (rnd (4096 / A)) (rnd (4096 / B))) else A)"
    and sn: "snd (finalSize rnd sw sh pr) =
      (if B > 4096 \<or> A > 4096 then rnd (B * min (rnd (4096 / B)) (rnd (4096 / A))) else B)"
    using A0 B0
    by (auto simp add: finalSize_def Let_def maxDimension_def A_def B_def a_def b_def min.commute)
  have "fst (fittedSize sw sh pr) = fitted a b"
    using fitted_fitFactor [OF a0 b0] by (simp add: fittedSize_def a_def b_def)
  moreover have "snd (fittedSize sw sh pr) = fitted b a"
    using fitted_fitFactor [OF b0 a0] by (simp add: fittedSize_def a_def b_def fitFactor_commute)
  moreover note scaled_near [OF acc nA nB a b] scaled_near [OF acc nB nA b a]
    fitted_le [OF a0 b0] fitted_le [OF b0 a0]
  ultimately show "near (roundoff * roundoff * (roundoff * roundoff))
           (fst (finalSize rnd sw sh pr)) (fst (fittedSize sw sh pr))"
    and "near (roundoff * roundoff * (roundoff * roundoff))
           (snd (finalSize rnd sw sh pr)) (snd (fittedSize sw sh pr))"
    and "0 < fst (fittedSize sw sh pr) \<and> fst (fittedSize sw sh pr) \<le> 4096"
    and "0 < snd (fittedSize sw sh pr) \<and> snd (fittedSize sw sh pr) \<le> 4096"
    by (simp_all only: fs sn)
qed

lemma fittedSize_ratio: "fst (fittedSize sw sh pr) * sh = snd (fittedSize sw sh pr) * sw"
  by (simp add: fittedSize_def)

lemma cross_bound:
  fixes cw ch W H sw sh :: real
  assumes "W * sh = H * sw" and "0 \<le> sw" and "0 \<le> sh"
    and "W - 1001 / 1000 < cw" and "cw \<le> W + 1 / 1000"
    and "H - 1001 / 1000 < ch" and "ch \<le> H + 1 / 1000"
  shows "\<bar>cw * sh - ch * sw\<bar> \<le> 1001 / 1000 * (sw + sh)"
proof -
  define p where "p = (cw - W) * sh"
  define q where "q = (ch - H) * sw"
  have e: "cw * sh - ch * sw = p - q"
    using assms(1) by (simp add: algebra_simps p_def q_def)
  have "p \<le> 1 / 1000 * sh" "- (1001 / 1000) * sh \<le> p"
    unfolding p_def using assms(3,4,5) by (intro mult_right_mono; simp)+
  moreover have "q \<le> 1 / 1000 * sw" "- (1001 / 1000) * sw \<le> q"
    unfolding q_def using assms(2,6,7) by (intro mult_right_mono; simp)+
  ultimately have "p - q \<le> 1001 / 1000 * (sw + sh)" and "q - p \<le> 1001 / 1000 * (sw + sh)"
    using assms(2,3) by (simp_all add: algebra_simps)
  then have "\<bar>p - q\<bar> \<le> 1001 / 1000 * (sw + sh)"
    by (simp only: abs_le_iff minus_diff_eq)
  then show ?thesis
    by (simp only: e)
qed

text \<open>Without rounding, the computed size is the size the claim states.\<close>

lemma finalSize_exact:
  assumes "0 < sw" and "0 < sh" and "0 < pr"
  shows "finalSize exact sw sh pr = fittedSize sw sh pr"
  using assms
  by (auto simp add: finalSize_def fittedSize_def fitFactor_def exact_def maxDimension_def Let_def)

lemma accurate_exact: "accurate exact"
  by (simp add: accurate_def exact_def)

text \<open>
  C3, as stated, fails for the final canvas. The canvas keeps the integer parts of the
  two numbers, so its ratio is not the stage's: a stage of 1024 by 333.125 on a phone
  375 wide has the targets 8192 by 2665, the factor one half (no operation rounds) and
  the numbers 4096 and 1332.5, and the canvas is 4096 by 1332.
\<close>

theorem canvasSize_ratio_counterexample:
  "canvasSize exact 1024 (2665 / 8) (exportPixelRatio True 375) = (4096, 1332)
   \<and> (4096 :: real) / 1332 \<noteq> 1024 / (2665 / 8)"
  by (simp add: exact_def canvasSize_def finalSize_def exportPixelRatio_def maxDimension_def Let_def)

text \<open>
  C3, amended. For a stage whose sides are between a millionth and a million, the pixel
  ratio the export chooses and doubles rounded to nearest, neither dimension of the
  final canvas exceeds 4096, and each is the integer part, up to rounding, of the
  stage's dimension times the pixel ratio times the common factor
  \<open>min (4096 / targetWidth) (4096 / targetHeight)\<close> (or 1 when no target exceeds 4096):
  it lies no more than 1.001 below that number and no more than 0.001 above it. So the
  ratio of the canvas is the ratio of the stage up to one pixel of each dimension, not
  exactly.
\<close>

theorem canvasSize_fits_nearly:
  assumes "accurate rnd"
    and "1 / 10 ^ 6 \<le> sw" and "sw \<le> 10 ^ 6" and "1 / 10 ^ 6 \<le> sh" and "sh \<le> 10 ^ 6"
  shows "0 \<le> fst (canvasSize rnd sw sh (exportPixelRatio m w))
       \<and> fst (canvasSize rnd sw sh (exportPixelRatio m w)) \<le> 4096
       \<and> 0 \<le> snd (canvasSize rnd sw sh (exportPixelRatio m w))
       \<and> snd (canvasSize rnd sw sh (exportPixelRatio m w)) \<le> 4096
       \<and> fst (fittedSize sw sh (exportPixelRatio m w)) - 1001 / 1000
            < real_of_int (fst (canvasSize rnd sw sh (exportPixelRatio m w)))
       \<and> real_of_int (fst (canvasSize rnd sw sh (exportPixelRatio m w)))
            \<le> fst (fittedSize sw sh (exportPixelRatio m w)) + 1 / 1000
       \<and> snd (fittedSize sw sh (exportPixelRatio m w)) - 1001 / 1000
            < real_of_int (snd (canvasSize rnd sw sh (exportPixelRatio m w)))
       \<and> real_of_int (snd (canvasSize rnd sw sh (exportPixelRatio m w)))
            \<le> snd (fittedSize sw sh (exportPixelRatio m w)) + 1 / 1000
       \<and> \<bar>real_of_int (fst (canvasSize rnd sw sh (exportPixelRatio m w))) * sh
           - real_of_int (snd (canvasSize rnd sw sh (exportPixelRatio m w))) * sw\<bar>
            \<le> 1001 / 1000 * (sw + sh)"
proof -
  define pr where "pr = exportPixelRatio m w"
  define F where "F = fst (finalSize rnd sw sh pr)"
  define G where "G = snd (finalSize rnd sw sh pr)"
  define W where "W = fst (fittedSize sw sh pr)"
  define H where "H = snd (fittedSize sw sh pr)"
  have pr: "3 \<le> pr" "pr \<le> 8"
    using exportPixelRatio_range [of m w] by (simp_all add: pr_def)
  note n = finalSize_near [OF assms pr, folded F_def G_def W_def H_def]
  have r: "1 \<le> roundoff * roundoff * (roundoff * roundoff)"
    by (simp add: roundoff_def)
  from near_close [OF n(1) r roundoff_4] n(3)
  have F: "0 < F \<and> F < 4097 \<and> F \<le> W + 1 / 1000 \<and> W \<le> F + 1 / 1000"
    by simp
  from near_close [OF n(2) r roundoff_4] n(4)
  have G: "0 < G \<and> G < 4097 \<and> G \<le> H + 1 / 1000 \<and> H \<le> G + 1 / 1000"
    by simp
  have c: "canvasSize rnd sw sh pr = (\<lfloor>F\<rfloor>, \<lfloor>G\<rfloor>)"
    by (simp add: canvasSize_def F_def G_def split_beta)
  have 1: "0 \<le> \<lfloor>F\<rfloor> \<and> \<lfloor>F\<rfloor> \<le> 4096
         \<and> W - 1001 / 1000 < real_of_int \<lfloor>F\<rfloor> \<and> real_of_int \<lfloor>F\<rfloor> \<le> W + 1 / 1000"
    using F by (intro floor_close) simp_all
  have 2: "0 \<le> \<lfloor>G\<rfloor> \<and> \<lfloor>G\<rfloor> \<le> 4096
         \<and> H - 1001 / 1000 < real_of_int \<lfloor>G\<rfloor> \<and> real_of_int \<lfloor>G\<rfloor> \<le> H + 1 / 1000"
    using G by (intro floor_close) simp_all
  have "W * sh = H * sw"
    unfolding W_def H_def by (rule fittedSize_ratio)
  then have 3: "\<bar>real_of_int \<lfloor>F\<rfloor> * sh - real_of_int \<lfloor>G\<rfloor> * sw\<bar> \<le> 1001 / 1000 * (sw + sh)"
    using 1 2 assms(2,4) by (intro cross_bound [where W = W and H = H]) simp_all
  show ?thesis
    unfolding pr_def [symmetric] c W_def [symmetric] H_def [symmetric]
    using 1 2 3 by simp
qed

theorem canvasSize_fits_nearly_witness:
  "accurate exact \<and> (1::real) / 10 ^ 6 \<le> 1000 \<and> (1000::real) \<le> 10 ^ 6
   \<and> (1::real) / 10 ^ 6 \<le> 333 \<and> (333::real) \<le> 10 ^ 6
   \<and> canvasSize exact 1000 333 (exportPixelRatio True 400) = (4096, 1363)
   \<and> fittedSize 1000 333 (exportPixelRatio True 400) = (4096, 170496 / 125)
   \<and> snd (fittedSize 1000 333 (exportPixelRatio True 400)) - 1001 / 1000
        < real_of_int (snd (canvasSize exact 1000 333 (exportPixelRatio True 400)))
   \<and> \<bar>real_of_int (fst (canvasSize exact 1000 333 (exportPixelRatio True 400))) * 333
       - real_of_int (snd (canvasSize exact 1000 333 (exportPixelRatio True 400))) * 1000\<bar>
        \<le> 1001 / 1000 * (1000 + 333)"
  using canvasSize_fits_nearly [of exact 1000 333 True 400]
  by (simp add: accurate_def exact_def canvasSize_def finalSize_def fittedSize_def fitFactor_def
      exportPixelRatio_def maxDimension_def Let_def)

section \<open>Export: selection and fallback\<close>

lemma selectionAfter_captures:
  "list_all is_capture acts \<Longrightarrow> selectionAfter sel (acts @ rest) = selectionAfter sel rest"
  by (induction acts) (auto elim: is_capture.elims)

lemma capturesClean_captures:
  "list_all is_capture acts \<Longrightarrow>
   capturesClean False True (acts @ rest) = capturesClean False True rest"
  by (induction acts) (auto elim: is_capture.elims)

lemma encodeComposite_captures:
  "list_all is_capture acts \<Longrightarrow> list_all is_capture (fst (encodeComposite env d acts))"
  by (simp add: encodeComposite_def)

lemma manualDraw_captures:
  "list_all is_capture acts \<Longrightarrow> list_all is_capture (fst (manualDraw env d acts))"
  by (simp add: manualDraw_def encodeComposite_captures split: option.split sum.split)

lemma captureCanvas_captures: "list_all is_capture (fst (captureCanvas env pr))"
  by (simp add: captureCanvas_def retryExport_def manualDraw_captures
      split: option.split sum.split)

text \<open>
  C6. Whatever the selection when the export is called and whatever the platform does,
  every capture the operation makes happens while the overlay is deselected and after
  the UI timer that follows the deselection; and whenever the returned promise settles,
  resolved or rejected, the selection after the operation's actions is the selection it
  started with. The model is of the operation's own actions, with no other event
  handler running in between.
\<close>

theorem getCleanRender_selection:
  "capturesClean sel False (actions (getCleanRender env sel))
   \<and> (settled (getCleanRender env sel) \<noteq> None
        \<longrightarrow> selectionAfter sel (actions (getCleanRender env sel)) = sel)"
proof -
  obtain acts r
    where cc: "captureCanvas env (exportPixelRatio (isMobile env) (innerWidth env)) = (acts, r)"
    by (cases "captureCanvas env (exportPixelRatio (isMobile env) (innerWidth env))")
  with captureCanvas_captures [of env "exportPixelRatio (isMobile env) (innerWidth env)"]
  have caps: "list_all is_capture acts"
    by simp
  have clean: "capturesClean False True (acts @ rest) = capturesClean False True rest" for rest
    using caps by (rule capturesClean_captures)
  have clean0: "capturesClean False True acts"
    using clean [of "[]"] by simp
  have after: "selectionAfter s (acts @ rest) = selectionAfter s rest" for s rest
    using caps by (rule selectionAfter_captures)
  have after0: "selectionAfter s acts = s" for s
    using after [of s "[]"] by simp
  show ?thesis
    by (cases sel; cases r)
       (auto simp add: getCleanRender_def Let_def cc clean clean0 after after0
          split: option.split sum.split)
qed

theorem getCleanRender_selection_witness:
  "settled (getCleanRender phoneExport True) \<noteq> None
   \<and> capturesClean True False (actions (getCleanRender phoneExport True))
   \<and> selectionAfter True (actions (getCleanRender phoneExport True)) = True
   \<and> actions (getCleanRender phoneExport True)
       = [SetIsSelected False, UiTimer, StageToDataURL 7, CanvasToDataURL, SetIsSelected True]"
  using getCleanRender_selection [of True phoneExport]
  by (simp add: getCleanRender_def captureCanvas_def manualDraw_def encodeComposite_def
      ensureImageLoaded_def exportPixelRatio_def phoneExport_def Let_def)

text \<open>
  The restriction to settled promises matters: when \<^verbatim>\<open>ensureImageLoaded\<close> never
  settles (an image that is complete with no natural width and fires no event), the
  export stays pending and the overlay stays deselected.
\<close>

lemma pending_export_stays_deselected:
  "settled (getCleanRender
      (phoneExport\<lparr>displayImage := Some \<lparr>complete = True, naturalWidth = 0,
                        image_event = NoEvent, completeAtTimeout = True\<rparr>\<rparr>) True) = None
   \<and> selectionAfter True (actions (getCleanRender
      (phoneExport\<lparr>displayImage := Some \<lparr>complete = True, naturalWidth = 0,
                        image_event = NoEvent, completeAtTimeout = True\<rparr>\<rparr>) True)) = False"
  by (simp add: getCleanRender_def captureCanvas_def manualDraw_def
      ensureImageLoaded_def exportPixelRatio_def phoneExport_def Let_def)

lemma captureCanvas_small:
  assumes "CanvasToDataURL \<in> set (fst (captureCanvas env pr))"
    and "offscreenToDataURL env = Inr u" and "length u < 10000"
  shows "\<exists>d. directCapture env = Inr d \<and> snd (captureCanvas env pr) = Some (Inr d)"
  using assms
  by (auto simp add: captureCanvas_def retryExport_def manualDraw_def encodeComposite_def
      split: sum.splits option.splits if_splits)

text \<open>
  C7. In every export that gets as far as encoding the off-screen canvas, if the data URL
  that encoding returns is shorter than 10000 characters (the size the code tests, line
  360), the direct capture of step 1 had succeeded and the promise resolves with it: no
  error reaches the caller.
\<close>

theorem small_composite_falls_back:
  assumes "CanvasToDataURL \<in> set (actions (getCleanRender env sel))"
    and "offscreenToDataURL env = Inr u" and "length u < 10000"
  shows "\<exists>d. directCapture env = Inr d \<and> settled (getCleanRender env sel) = Some (Resolved d)"
proof -
  obtain acts r
    where cc: "captureCanvas env (exportPixelRatio (isMobile env) (innerWidth env)) = (acts, r)"
    by (cases "captureCanvas env (exportPixelRatio (isMobile env) (innerWidth env))")
  from assms(1) have "CanvasToDataURL \<in> set acts"
    and run: "stageRef env" "callbackThrows env = None"
    by (auto simp add: getCleanRender_def Let_def cc split: if_splits option.splits sum.splits)
  with cc have "CanvasToDataURL
      \<in> set (fst (captureCanvas env (exportPixelRatio (isMobile env) (innerWidth env))))"
    by simp
  from captureCanvas_small [OF this assms(2,3)] cc
  obtain d where d: "directCapture env = Inr d" "r = Some (Inr d)"
    by auto
  then show ?thesis
    using run cc by (simp add: getCleanRender_def Let_def)
qed

theorem small_composite_falls_back_witness:
  "CanvasToDataURL \<in> set (actions (getCleanRender phoneExport True))
   \<and> offscreenToDataURL phoneExport = Inr ''data:,''
   \<and> length ''data:,'' < 10000
   \<and> settled (getCleanRender phoneExport True) = Some (Resolved ''data:image/png;base64,DIRECT'')"
  using small_composite_falls_back [of phoneExport True "''data:,''"]
  by (simp add: getCleanRender_def captureCanvas_def manualDraw_def encodeComposite_def
      ensureImageLoaded_def exportPixelRatio_def phoneExport_def Let_def)

section \<open>The filter None\<close>

text \<open>
  C8. Choosing the catalogue entry named None sets the selected filter to \<^verbatim>\<open>none\<close>.
  With it, for every photo (a non-empty \<^verbatim>\<open>userImage\<close>), on every platform and
  whatever the state was before, the filter effect leaves \<^verbatim>\<open>filteredImage\<close> null; the
  displayed image is then the user image itself, and neither the photo layer, nor the
  canvas container, nor the manual composite applies a filter to it.
\<close>

theorem none_filter_is_identity:
  assumes "userImage \<noteq> []"
  shows "selectFilterNamed ''None'' = Some ''none''
       \<and> filterEffect userImage ''none'' ios bk prev = None
       \<and> displaySource (filterEffect userImage ''none'' ios bk prev) userImage = userImage
       \<and> layerFilter ios (filterEffect userImage ''none'' ios bk prev) ''none'' = None
       \<and> containerFilter ios ''none'' = None
       \<and> compositeFilter ''none'' = None"
proof -
  have eff: "filterEffect userImage ''none'' ios bk prev = None"
    using assms by (simp add: filterEffect_def PHOTO_FILTERS_def)
  have "selectFilterNamed ''None'' = Some ''none''"
    by (simp add: selectFilterNamed_def PHOTO_FILTERS_def)
  moreover have "displaySource None userImage = userImage"
    by (simp add: displaySource_def)
  moreover have "layerFilter ios None ''none'' = None"
    by (simp add: layerFilter_def PHOTO_FILTERS_def)
  moreover have "containerFilter ios ''none'' = None"
    by (simp add: containerFilter_def currentFilterStyle_def)
  moreover have "compositeFilter ''none'' = None"
    by (simp add: compositeFilter_def)
  ultimately show ?thesis
    by (simp add: eff)
qed

theorem none_filter_is_identity_witness:
  "''data:image/jpeg;base64,PHOTO'' \<noteq> []
   \<and> filterEffect ''data:image/jpeg;base64,PHOTO'' ''none'' True
        \<lparr>bake_load = FiresLoad, bake_ctx = True, bake_tempCtx = True, bake_throws = False,
         bake_dataUrl = Some ''data:image/jpeg;base64,BAKED''\<rparr>
        (Some ''data:image/jpeg;base64,JUNO'') = None
   \<and> layerFilter True None ''none'' = None"
  using none_filter_is_identity [of "''data:image/jpeg;base64,PHOTO''" True
      "\<lparr>bake_load = FiresLoad, bake_ctx = True, bake_tempCtx = True, bake_throws = False,
        bake_dataUrl = Some ''data:image/jpeg;base64,BAKED''\<rparr>"
      "Some ''data:image/jpeg;base64,JUNO''"]
  by (simp add: layerFilter_def PHOTO_FILTERS_def)

section \<open>Calendar grid\<close>

lemma WeekDay_range: "0 \<le> WeekDay d \<and> WeekDay d \<le> 6"
  by (simp add: WeekDay_def)

lemma DaysInMonth_range: "28 \<le> DaysInMonth yr mn \<and> DaysInMonth yr mn \<le> 31"
  by (simp add: DaysInMonth_def)

subsection \<open>The grid as a list of cells\<close>

lemma upt_6: "[0..<6] = [0, 1, 2, 3, 4, 5]"
  by code_simp

lemma upt_7: "[0..<7] = [0, 1, 2, 3, 4, 5, 6]"
  by code_simp

lemma upt_42:
  "[0..<42] = [0, 1, 2, 3, 4, 5, 6] @ [7, 8, 9, 10, 11, 12, 13]
     @ [14, 15, 16, 17, 18, 19, 20] @ [21, 22, 23, 24, 25, 26, 27]
     @ [28, 29, 30, 31, 32, 33, 34] @ [35, 36, 37, 38, 39, 40, 41]"
  by code_simp

lemma dayGrid_flat:
  "dayGrid fd dm = concat (map (\<lambda>i. dayCell fd dm (i div 7) (i mod 7)) [0..<42])"
  unfolding dayGrid_def upt_6 upt_7 upt_42 by simp

lemma dayCell_index:
  assumes "0 \<le> fd"
  shows "dayCell (Some fd) (Some dm) (i div 7) (i mod 7)
       = (if nat fd \<le> i \<and> i < nat fd + nat dm
          then [(i div 7, i mod 7, int i - fd + 1)] else [])"
proof -
  have "int (i div 7) * 7 + int (i mod 7) = int i"
    by (simp add: zdiv_int zmod_int)
  then have "int (i div 7) * 7 + int (i mod 7) - fd + 1 = int i - fd + 1"
    by simp
  then show ?thesis
    using assms by (auto simp add: dayCell_def Let_def)
qed

lemma concat_map_if:
  "concat (map (\<lambda>i. if P i then [g i] else []) xs) = map g (filter P xs)"
  by (induction xs) simp_all

lemma filter_range:
  "filter (\<lambda>i. a \<le> i \<and> i < b) [0..<n] = [a..<min b n]"
proof (induction n)
  case 0
  then show ?case by simp
next
  case (Suc n)
  show ?case
  proof (cases "n < b")
    case False
    then have "min b (Suc n) = min b n" by simp
    with Suc False show ?thesis by simp
  next
    case True
    then have m: "min b (Suc n) = Suc n" "min b n = n" by simp_all
    show ?thesis
    proof (cases "a \<le> n")
      case True
      with Suc m \<open>n < b\<close> show ?thesis by simp
    next
      case False
      with Suc m \<open>n < b\<close> show ?thesis by simp
    qed
  qed
qed

lemma dayGrid_eq:
  assumes "0 \<le> fd" and "nat fd + nat dm \<le> 42"
  shows "dayGrid (Some fd) (Some dm)
       = map (\<lambda>i. (i div 7, i mod 7, int i - fd + 1)) [nat fd..<nat fd + nat dm]"
proof -
  have "dayGrid (Some fd) (Some dm)
      = concat (map (\<lambda>i. if nat fd \<le> i \<and> i < nat fd + nat dm
                          then [(i div 7, i mod 7, int i - fd + 1)] else []) [0..<42])"
    by (simp only: dayGrid_flat dayCell_index [OF assms(1)])
  also have "\<dots> = map (\<lambda>i. (i div 7, i mod 7, int i - fd + 1))
                     (filter (\<lambda>i. nat fd \<le> i \<and> i < nat fd + nat dm) [0..<42])"
    by (rule concat_map_if)
  also have "filter (\<lambda>i. nat fd \<le> i \<and> i < nat fd + nat dm) [0..<42]
           = [nat fd..<nat fd + nat dm]"
    using assms(2) by (simp only: filter_range min_absorb1)
  finally show ?thesis .
qed

lemma dayGrid_NaN: "dayGrid None dm = []"
  by (simp add: dayGrid_def dayCell_def)

lemma inj_cell: "inj_on (\<lambda>i::nat. (i div 7, i mod 7)) A"
proof (rule inj_onI)
  fix a b :: nat
  assume "(a div 7, a mod 7) = (b div 7, b mod 7)"
  then have "a div 7 = b div 7" "a mod 7 = b mod 7" by simp_all
  then have "a div 7 * 7 + a mod 7 = b div 7 * 7 + b mod 7" by simp
  then show "a = b" by (simp only: div_mult_mod_eq)
qed

lemma dayGrid_set:
  "set (dayGrid (Some fd) (Some dm))
     = {(row, col, d). row < 6 \<and> col < 7 \<and> d = int row * 7 + int col - fd + 1
          \<and> 1 \<le> d \<and> d \<le> dm}"
  by (auto simp add: dayGrid_def dayCell_def Let_def)

lemma dayGrid_first:
  assumes "0 \<le> fd" and "fd \<le> 6" and "1 \<le> dm"
  shows "(row, col, 1) \<in> set (dayGrid (Some fd) (Some dm)) \<longleftrightarrow> row = 0 \<and> int col = fd"
proof
  assume "(row, col, 1) \<in> set (dayGrid (Some fd) (Some dm))"
  then have c: "col < 7" and e: "int row * 7 + int col = fd"
    by (simp_all add: dayGrid_set)
  from e assms(2) have "int row * 7 \<le> 6" by simp
  then have "row = 0" by simp
  with e show "row = 0 \<and> int col = fd" by simp
next
  assume "row = 0 \<and> int col = fd"
  then show "(row, col, 1) \<in> set (dayGrid (Some fd) (Some dm))"
    using assms by (simp add: dayGrid_set)
qed

lemma dayGrid_count:
  assumes "0 \<le> fd" and "fd \<le> 6" and "dm \<le> 31"
  shows "length (dayGrid (Some fd) (Some dm)) = nat dm"
    and "distinct (map (\<lambda>(row, col, d). (row, col)) (dayGrid (Some fd) (Some dm)))"
proof -
  have le: "nat fd + nat dm \<le> 42"
    using assms by simp
  note eq = dayGrid_eq [OF assms(1) le]
  show "length (dayGrid (Some fd) (Some dm)) = nat dm"
    by (simp add: eq)
  have "map (\<lambda>(row, col, d). (row, col)) (dayGrid (Some fd) (Some dm))
      = map (\<lambda>i. (i div 7, i mod 7)) [nat fd..<nat fd + nat dm]"
    by (simp add: eq)
  then show "distinct (map (\<lambda>(row, col, d). (row, col)) (dayGrid (Some fd) (Some dm)))"
    by (simp add: distinct_map inj_cell)
qed

subsection \<open>Day arithmetic\<close>

lemma div_next:
  fixes z n :: int
  assumes "1 < n"
  shows "(z + 1) div n = z div n + (if n dvd z + 1 then 1 else 0)"
proof -
  have m: "0 \<le> z mod n" "z mod n < n"
    using assms by simp_all
  have one: "1 div n = 0" "1 mod n = 1"
    using assms by (simp_all add: div_pos_pos_trivial mod_pos_pos_trivial)
  have d: "(z + 1) div n = z div n + (z mod n + 1) div n"
    using div_add1_eq [of z 1 n] one by simp
  have r: "(z + 1) mod n = (z mod n + 1) mod n"
    by (rule mod_add_left_eq [symmetric])
  show ?thesis
  proof (cases "z mod n + 1 = n")
    case True
    then have "(z mod n + 1) div n = 1" and "(z + 1) mod n = 0"
      using assms r by simp_all
    then show ?thesis
      using d by (simp add: dvd_eq_mod_eq_0)
  next
    case False
    with m have lt: "0 \<le> z mod n + 1" "z mod n + 1 < n"
      by simp_all
    then have "(z mod n + 1) div n = 0" and "(z + 1) mod n = z mod n + 1"
      using r by (simp_all only: div_pos_pos_trivial mod_pos_pos_trivial)
    moreover have "z mod n + 1 \<noteq> 0"
      using m by simp
    ultimately show ?thesis
      using d by (simp add: dvd_eq_mod_eq_0)
  qed
qed

lemma dvd_shift:
  fixes v n :: int
  shows "(n dvd v - n * k) = (n dvd v)"
  by (simp only: dvd_diff_left_iff dvd_triv_left)

lemma div_one_more:
  fixes v :: int
  assumes "1 < n"
  shows "(v - n * k) div n = (v - n * k - 1) div n + (if n dvd v then 1 else 0)"
proof -
  have "(v - n * k - 1 + 1) div n
      = (v - n * k - 1) div n + (if n dvd v - n * k - 1 + 1 then 1 else 0)"
    by (rule div_next [OF assms])
  moreover have "v - n * k - 1 + 1 = v - n * k"
    by simp
  ultimately have "(v - n * k) div n
      = (v - n * k - 1) div n + (if n dvd v - n * k then 1 else 0)"
    by simp
  then show ?thesis
    by (simp only: dvd_shift)
qed

lemma leap_divisors:
  fixes yr :: int
  shows "400 dvd yr \<Longrightarrow> 100 dvd yr" and "100 dvd yr \<Longrightarrow> 4 dvd yr"
proof -
  have "(400::int) = 100 * 4"
    by simp
  then have "(100::int) dvd 400"
    by (simp only: dvd_triv_left)
  then show "400 dvd yr \<Longrightarrow> 100 dvd yr"
    by (rule dvd_trans)
  have "(100::int) = 4 * 25"
    by simp
  then have "(4::int) dvd 100"
    by (simp only: dvd_triv_left)
  then show "100 dvd yr \<Longrightarrow> 4 dvd yr"
    by (rule dvd_trans)
qed

lemma leap_step:
  fixes yr q4 q100 q400 :: int
  assumes "P400 \<Longrightarrow> P100" and "P100 \<Longrightarrow> P4"
  shows "365 * (yr + 1 - 1970) + (q4 + (if P4 then 1 else 0))
        - (q100 + (if P100 then 1 else 0)) + (q400 + (if P400 then 1 else 0))
     = 365 * (yr - 1970) + q4 - q100 + q400
        + (if P4 \<and> (\<not> P100 \<or> P400) then 366 else 365)"
proof -
  have "365 * (yr + 1 - 1970) = 365 * (yr - 1970) + 365"
    by simp
  then show ?thesis
    using assms by (cases P4; cases P100; cases P400) simp_all
qed

lemma DayFromYear_next:
  "DayFromYear (yr + 1) = DayFromYear yr + (if InLeapYear yr then 366 else 365)"
proof -
  have a: "(yr + 1 - 1969) div 4 = (yr - 1969) div 4 + (if 4 dvd yr then 1 else 0)"
  proof -
    have "yr + 1 - 1969 = yr - 4 * 492" "yr - 1969 = yr - 4 * 492 - 1"
      by simp_all
    then show ?thesis
      using div_one_more [of 4 yr 492] by (simp only:)
  qed
  have b: "(yr + 1 - 1901) div 100 = (yr - 1901) div 100 + (if 100 dvd yr then 1 else 0)"
  proof -
    have "yr + 1 - 1901 = yr - 100 * 19" "yr - 1901 = yr - 100 * 19 - 1"
      by simp_all
    then show ?thesis
      using div_one_more [of 100 yr 19] by (simp only:)
  qed
  have c: "(yr + 1 - 1601) div 400 = (yr - 1601) div 400 + (if 400 dvd yr then 1 else 0)"
  proof -
    have "yr + 1 - 1601 = yr - 400 * 4" "yr - 1601 = yr - 400 * 4 - 1"
      by simp_all
    then show ?thesis
      using div_one_more [of 400 yr 4] by (simp only:)
  qed
  have leap: "InLeapYear yr \<longleftrightarrow> 4 dvd yr \<and> (\<not> 100 dvd yr \<or> 400 dvd yr)"
    unfolding InLeapYear_def dvd_eq_mod_eq_0 ..
  show ?thesis
    unfolding DayFromYear_def a b c leap
    by (rule leap_step) (erule leap_divisors)+
qed

lemma months_before_bounds:
  "0 \<le> (\<Sum>k\<leftarrow>[0..<n]. DaysInMonth yr (int k))
   \<and> (\<Sum>k\<leftarrow>[0..<n]. DaysInMonth yr (int k)) \<le> 31 * int n"
proof (induction n)
  case 0
  show ?case by simp
next
  case (Suc n)
  have "28 \<le> DaysInMonth yr (int n) \<and> DaysInMonth yr (int n) \<le> 31"
    by (simp add: DaysInMonth_def)
  with Suc show ?case by simp
qed

lemma year_total:
  "(\<Sum>k\<leftarrow>[0..<12]. DaysInMonth yr (int k)) = (if InLeapYear yr then 366 else 365)"
proof -
  have "[0..<12] = [0, 1, 2, 3, 4, 5, 6, 7, 8, 9, 10, 11]"
    by code_simp
  then show ?thesis
    by (simp add: DaysInMonth_def)
qed

lemma day_zero_of_next_month:
  assumes "0 \<le> month" and "month \<le> 11"
  shows "MakeDay yr (month + 1) 0 = MakeDay yr month 1 + DaysInMonth yr month - 1"
proof (cases "month = 11")
  case True
  have "[0..<12] = [0..<11] @ [11]"
    by code_simp
  then have "(\<Sum>k\<leftarrow>[0..<12]. DaysInMonth yr (int k))
      = (\<Sum>k\<leftarrow>[0..<11]. DaysInMonth yr (int k)) + DaysInMonth yr 11"
    by simp
  with year_total [of yr] True show ?thesis
    by (simp add: MakeDay_def DayFromYear_next)
next
  case False
  with assms have m: "(month + 1) div 12 = 0" "(month + 1) mod 12 = month + 1"
    "month div 12 = 0" "month mod 12 = month"
    by simp_all
  have "nat (month + 1) = Suc (nat month)"
    using assms by simp
  then show ?thesis
    using assms by (simp add: MakeDay_def m)
qed

lemma DayFromYear_bounds:
  assumes "- 271820 \<le> yr" and "yr \<le> 275759"
  shows "- 99999750 \<le> DayFromYear yr \<and> DayFromYear yr \<le> 99999400"
proof -
  define q4 where "q4 = (yr - 1969) div 4"
  define q100 where "q100 = (yr - 1901) div 100"
  define q400 where "q400 = (yr - 1601) div 400"
  have a: "4 * q4 \<le> yr - 1969" "yr - 1969 < 4 * q4 + 4"
    unfolding q4_def by simp_all
  have b: "100 * q100 \<le> yr - 1901" "yr - 1901 < 100 * q100 + 100"
    unfolding q100_def by simp_all
  have c: "400 * q400 \<le> yr - 1601" "yr - 1601 < 400 * q400 + 400"
    unfolding q400_def by simp_all
  have cur: "DayFromYear yr = 365 * yr - 719050 + q4 - q100 + q400"
    unfolding DayFromYear_def q4_def q100_def q400_def by simp
  have "- 99999750 \<le> 365 * yr - 719050 + q4 - q100 + q400"
    using assms a b c by linarith
  moreover have "365 * yr - 719050 + q4 - q100 + q400 \<le> 99999400"
    using assms a b c by linarith
  ultimately show ?thesis
    unfolding cur by simp
qed

subsection \<open>Reading a date back\<close>

text \<open>
  The day on which a year begins, within a day and a half of the mean: 400 years are
  146097 days.
\<close>

lemma DayFromYear_estimate:
  "146097 * yr - 287811697 < 400 * DayFromYear yr"
  "400 * DayFromYear yr < 146097 * yr - 287810497"
proof -
  define q4 where "q4 = (yr - 1969) div 4"
  define q100 where "q100 = (yr - 1901) div 100"
  define q400 where "q400 = (yr - 1601) div 400"
  have a: "4 * q4 \<le> yr - 1969" "yr - 1969 < 4 * q4 + 4"
    unfolding q4_def by simp_all
  have b: "100 * q100 \<le> yr - 1901" "yr - 1901 < 100 * q100 + 100"
    unfolding q100_def by simp_all
  have c: "400 * q400 \<le> yr - 1601" "yr - 1601 < 400 * q400 + 400"
    unfolding q400_def by simp_all
  have cur: "400 * DayFromYear yr = 146000 * yr - 287620000 + 400 * q4 - 400 * q100 + 400 * q400"
    unfolding DayFromYear_def q4_def q100_def q400_def by simp
  have "146097 * yr - 287811697 < 146000 * yr - 287620000 + 400 * q4 - 400 * q100 + 400 * q400"
    using a b c by linarith
  then show "146097 * yr - 287811697 < 400 * DayFromYear yr"
    unfolding cur .
  have "146000 * yr - 287620000 + 400 * q4 - 400 * q100 + 400 * q400 < 146097 * yr - 287810497"
    using a b c by linarith
  then show "400 * DayFromYear yr < 146097 * yr - 287810497"
    unfolding cur .
qed

lemma DayFromYear_mono:
  assumes "y1 \<le> y2"
  shows "DayFromYear y1 \<le> DayFromYear y2"
proof (cases "y1 = y2")
  case True
  then show ?thesis by simp
next
  case False
  with assms have "y1 + 1 \<le> y2" by simp
  with DayFromYear_estimate(2) [of y1] DayFromYear_estimate(1) [of y2] show ?thesis
    by linarith
qed

lemma Day_MakeDate: "Day (MakeDate d 0) = d"
  by (simp add: Day_def MakeDate_def msPerDay_def)

text \<open>
  \<^const>\<open>YearFromTime\<close> is the year of the specification of the platform, the one that
  begins at or before the day and whose successor begins after it.
\<close>

lemma YearFromTime_bracket:
  "DayFromYear (YearFromTime t) \<le> Day t \<and> Day t < DayFromYear (YearFromTime t + 1)"
proof -
  define d where "d = Day t"
  define k where "k = (400 * d) div 146097"
  have k: "146097 * k \<le> 400 * d" "400 * d < 146097 * k + 146097"
    unfolding k_def by simp_all
  define y0 where "y0 = 1970 + k"
  define ya where "ya = y0 - 1"
  define yb where "yb = y0 + 1 + 1"
  have y: "ya = 1969 + k" "yb = 1972 + k"
    by (simp_all add: ya_def yb_def y0_def)
  have lo: "DayFromYear (y0 - 1) \<le> d"
    using DayFromYear_estimate(2) [of ya] k y unfolding ya_def [symmetric] by linarith
  have hi: "d < DayFromYear (y0 + 1 + 1)"
    using DayFromYear_estimate(1) [of yb] k y unfolding yb_def [symmetric] by linarith
  show ?thesis
    using lo hi
    unfolding YearFromTime_def d_def [symmetric] k_def [symmetric] y0_def [symmetric] Let_def
    by auto
qed

lemma YearFromTime_unique:
  assumes "DayFromYear yr \<le> Day t" and "Day t < DayFromYear (yr + 1)"
  shows "YearFromTime t = yr"
proof (rule ccontr)
  assume ne: "YearFromTime t \<noteq> yr"
  note b = YearFromTime_bracket [of t]
  show False
  proof (cases "YearFromTime t < yr")
    case True
    then have "DayFromYear (YearFromTime t + 1) \<le> DayFromYear yr"
      by (intro DayFromYear_mono) simp
    with b assms show False by linarith
  next
    case False
    with ne have "DayFromYear (yr + 1) \<le> DayFromYear (YearFromTime t)"
      by (intro DayFromYear_mono) simp
    with b assms show False by linarith
  qed
qed

lemma months_before_next:
  assumes "0 \<le> m"
  shows "(\<Sum>k\<leftarrow>[0..<nat (m + 1)]. DaysInMonth yr (int k))
       = (\<Sum>k\<leftarrow>[0..<nat m]. DaysInMonth yr (int k)) + DaysInMonth yr m"
proof -
  have "nat (m + 1) = Suc (nat m)"
    using assms by simp
  then show ?thesis
    using assms by simp
qed

lemma month_cases:
  fixes m :: int
  assumes "0 \<le> m" and "m \<le> 11"
  shows "m = 0 \<or> m = 1 \<or> m = 2 \<or> m = 3 \<or> m = 4 \<or> m = 5
       \<or> m = 6 \<or> m = 7 \<or> m = 8 \<or> m = 9 \<or> m = 10 \<or> m = 11"
  using assms by arith

text \<open>The number of days of a year before its month \<open>m\<close>.\<close>

lemma months_before:
  assumes "0 \<le> m" and "m \<le> 11"
  shows "(\<Sum>k\<leftarrow>[0..<nat m]. DaysInMonth yr (int k))
       = (if m = 0 then 0 else if m = 1 then 31
          else (if InLeapYear yr then 1 else 0)
             + (if m = 2 then 59 else if m = 3 then 90 else if m = 4 then 120
                else if m = 5 then 151 else if m = 6 then 181 else if m = 7 then 212
                else if m = 8 then 243 else if m = 9 then 273 else if m = 10 then 304
                else 334))"
proof -
  let ?S = "\<lambda>m. \<Sum>k\<leftarrow>[0..<nat m]. DaysInMonth yr (int k)"
  let ?l = "if InLeapYear yr then 1 else 0 :: int"
  have s0: "?S 0 = 0"
    by simp
  have s1: "?S 1 = 31"
    using months_before_next [of 0 yr] by (simp add: DaysInMonth_def)
  have s2: "?S 2 = ?l + 59"
    using months_before_next [of 1 yr] s1 by (simp add: DaysInMonth_def)
  have s3: "?S 3 = ?l + 90"
    using months_before_next [of 2 yr] s2 by (simp add: DaysInMonth_def)
  have s4: "?S 4 = ?l + 120"
    using months_before_next [of 3 yr] s3 by (simp add: DaysInMonth_def)
  have s5: "?S 5 = ?l + 151"
    using months_before_next [of 4 yr] s4 by (simp add: DaysInMonth_def)
  have s6: "?S 6 = ?l + 181"
    using months_before_next [of 5 yr] s5 by (simp add: DaysInMonth_def)
  have s7: "?S 7 = ?l + 212"
    using months_before_next [of 6 yr] s6 by (simp add: DaysInMonth_def)
  have s8: "?S 8 = ?l + 243"
    using months_before_next [of 7 yr] s7 by (simp add: DaysInMonth_def)
  have s9: "?S 9 = ?l + 273"
    using months_before_next [of 8 yr] s8 by (simp add: DaysInMonth_def)
  have s10: "?S 10 = ?l + 304"
    using months_before_next [of 9 yr] s9 by (simp add: DaysInMonth_def)
  have s11: "?S 11 = ?l + 334"
    using months_before_next [of 10 yr] s10 by (simp add: DaysInMonth_def)
  from month_cases [OF assms] show ?thesis
    by (elim disjE) (simp_all only: s0 s1 s2 s3 s4 s5 s6 s7 s8 s9 s10 s11, simp_all)
qed

text \<open>
  Reading back a date: the year, the month and the day of the month of the time value
  made from a year, a month in 0..11 and a day of that month are those three numbers.
\<close>

lemma DateFromTime_MakeDay:
  assumes "0 \<le> m" and "m \<le> 11" and "1 \<le> dt" and "dt \<le> DaysInMonth yr m"
    and "Day t = MakeDay yr m dt"
  shows "YearFromTime t = yr \<and> MonthFromTime t = m \<and> DateFromTime t = dt"
proof -
  let ?l = "if InLeapYear yr then 1 else 0 :: int"
  from assms(1,2) have md: "m div 12 = 0" "m mod 12 = m"
    by simp_all
  define s where "s = (\<Sum>k\<leftarrow>[0..<nat m]. DaysInMonth yr (int k))"
  have d: "Day t = DayFromYear yr + s + dt - 1"
    by (simp add: assms(5) MakeDay_def md s_def)
  have s: "s = (if m = 0 then 0 else if m = 1 then 31
          else ?l
             + (if m = 2 then 59 else if m = 3 then 90 else if m = 4 then 120
                else if m = 5 then 151 else if m = 6 then 181 else if m = 7 then 212
                else if m = 8 then 243 else if m = 9 then 273 else if m = 10 then 304
                else 334))"
    unfolding s_def by (rule months_before [OF assms(1,2)])
  from month_cases [OF assms(1,2)] have in_year: "0 \<le> s + dt - 1 \<and> s + dt - 1 < 365 + ?l"
    using assms(3,4) by (elim disjE) (simp_all add: s DaysInMonth_def split: if_splits)
  have y: "YearFromTime t = yr"
    using in_year d
    by (intro YearFromTime_unique) (simp_all add: DayFromYear_next split: if_splits)
  have w: "DayWithinYear t = s + dt - 1"
    by (simp add: DayWithinYear_def y d)
  from month_cases [OF assms(1,2)] have mn: "MonthFromTime t = m"
    using assms(3,4)
    by (elim disjE) (simp_all add: MonthFromTime_def w y s DaysInMonth_def split: if_splits)
  from month_cases [OF assms(1,2)] have "DateFromTime t = dt"
    by (elim disjE) (simp_all add: DateFromTime_def mn w y s)
  with y mn show ?thesis
    by simp
qed

subsection \<open>The two values read from Date\<close>

lemma MakeDay_first_bounds:
  assumes "0 \<le> month" and "month \<le> 11" and "- 271820 \<le> yr" and "yr \<le> 275759"
  shows "- 99999750 \<le> MakeDay yr month 1 \<and> MakeDay yr month 1 \<le> 99999741"
proof -
  from assms have m: "month div 12 = 0" "month mod 12 = month"
    by simp_all
  have s: "0 \<le> (\<Sum>k\<leftarrow>[0..<nat month]. DaysInMonth yr (int k))"
    "(\<Sum>k\<leftarrow>[0..<nat month]. DaysInMonth yr (int k)) \<le> 31 * int (nat month)"
    using months_before_bounds [where n = "nat month" and yr = yr] by simp_all
  have "31 * int (nat month) \<le> 341"
    using assms by simp
  with s DayFromYear_bounds [OF assms(3,4)] show ?thesis
    by (simp add: MakeDay_def m)
qed

lemma MakeDay_date: "MakeDay yr month dt = MakeDay yr month 1 + dt - 1"
  by (simp add: MakeDay_def Let_def)

lemma TimeClip_keeps:
  assumes "\<bar>d\<bar> \<le> 99999999" and "\<bar>off\<bar> \<le> msPerDay"
  shows "TimeClip (MakeDate d 0 - off) = Some (MakeDate d 0 - off)"
proof -
  have "\<bar>86400000 * d\<bar> \<le> 8639999913600000"
    using assms(1) by linarith
  moreover have "\<bar>off\<bar> \<le> 86400000"
    using assms(2) by (simp add: msPerDay_def)
  ultimately have "\<bar>86400000 * d - off\<bar> \<le> 8640000000000000"
    by linarith
  then show ?thesis
    by (simp add: TimeClip_def MakeDate_def msPerDay_def mult.commute)
qed

text \<open>
  A date made of a day number that Date represents, in a zone that keeps the day: the
  local time of its time value is on that day.
\<close>

lemma newDate_day:
  assumes "\<bar>MakeDay (dateYear year) month dt\<bar> \<le> 99999999"
    and "keepsDay z (MakeDay (dateYear year) month dt)"
  shows "\<exists>tv. newDate z year month dt = Some tv
            \<and> Day (LocalTime z tv) = MakeDay (dateYear year) month dt"
proof -
  let ?d = "MakeDay (dateYear year) month dt"
  from assms(2) have off: "\<bar>z (MakeDate ?d 0) False\<bar> \<le> msPerDay"
    and day: "Day (LocalTime z (UTC z (MakeDate ?d 0))) = ?d"
    by (simp_all add: keepsDay_def)
  from TimeClip_keeps [OF assms(1) off]
  have "newDate z year month dt = Some (UTC z (MakeDate ?d 0))"
    by (simp add: newDate_def UTC_def)
  with day show ?thesis
    by simp
qed

lemma dateYear_same: "year < 0 \<or> 99 < year \<Longrightarrow> dateYear year = year"
  by (auto simp add: dateYear_def)

lemma firstDay_civil:
  assumes "0 \<le> month" and "month \<le> 11" and "- 271820 \<le> year" and "year \<le> 275759"
    and "year < 0 \<or> 99 < year" and "keepsDay z (MakeDay year month 1)"
  shows "firstDay z year month = Some (firstWeekday month year)"
proof -
  note y = dateYear_same [OF assms(5)]
  from MakeDay_first_bounds [OF assms(1-4)]
  have "\<bar>MakeDay (dateYear year) month 1\<bar> \<le> 99999999"
    unfolding y by linarith
  from newDate_day [OF this] assms(6)
  obtain tv where "newDate z year month 1 = Some tv"
    and "Day (LocalTime z tv) = MakeDay year month 1"
    unfolding y by auto
  then show ?thesis
    by (simp add: firstDay_def getDay_def WeekDay_def firstWeekday_def)
qed

lemma daysInMonth_civil:
  assumes "0 \<le> month" and "month \<le> 11" and "- 271820 \<le> year" and "year \<le> 275759"
    and "year < 0 \<or> 99 < year" and "keepsDay z (MakeDay year (month + 1) 0)"
  shows "daysInMonth z year month = Some (DaysInMonth year month)"
proof -
  note y = dateYear_same [OF assms(5)]
  have last: "MakeDay year (month + 1) 0 = MakeDay year month (DaysInMonth year month)"
    using day_zero_of_next_month [OF assms(1,2), of year]
      MakeDay_date [of year month "DaysInMonth year month"] by simp
  from MakeDay_first_bounds [OF assms(1-4)] DaysInMonth_range [of year month]
  have "\<bar>MakeDay (dateYear year) (month + 1) 0\<bar> \<le> 99999999"
    unfolding y day_zero_of_next_month [OF assms(1,2)] by linarith
  from newDate_day [OF this] assms(6)
  obtain tv where tv: "newDate z year (month + 1) 0 = Some tv"
    and "Day (LocalTime z tv) = MakeDay year month (DaysInMonth year month)"
    unfolding y last by auto
  moreover have "1 \<le> DaysInMonth year month"
    using DaysInMonth_range [of year month] by simp
  ultimately have "DateFromTime (LocalTime z tv) = DaysInMonth year month"
    using DateFromTime_MakeDay [OF assms(1,2), of "DaysInMonth year month" year "LocalTime z tv"]
    by simp
  with tv show ?thesis
    by (simp add: daysInMonth_def getDate_def)
qed

text \<open>A zone with one offset, of at most a day, keeps every day; UTC is such a zone.\<close>

lemma keepsDay_fixed:
  assumes "\<bar>off\<bar> \<le> msPerDay"
  shows "keepsDay (\<lambda>t isUTC. off) d"
  using assms by (simp add: keepsDay_def LocalTime_def UTC_def Day_MakeDate)

lemma keepsDay_utc: "keepsDay utc d"
  by (simp add: keepsDay_def utc_def LocalTime_def UTC_def Day_MakeDate msPerDay_def)

text \<open>
  C2, as stated, fails for years the platform's Date cannot represent: for January of
  the year 275761 the date is invalid, \<^verbatim>\<open>getDay\<close> gives NaN, every comparison
  with the day number is false and no cell is drawn, while the month has 31 days.
\<close>

theorem renderCalendar_counterexample:
  "renderCalendar utc 0 275761 = [] \<and> DaysInMonth 275761 0 = 31"
  by (simp add: renderCalendar_def firstDay_def getDay_def newDate_def TimeClip_def UTC_def
      utc_def MakeDate_def msPerDay_def MakeDay_def dateYear_def DayFromYear_def DaysInMonth_def
      dayGrid_NaN)

text \<open>
  It fails for the years 0 to 99 as well, which the constructor reads as 1900 to 1999:
  February of the year 0, a leap year, gets the 28 days of February 1900.
\<close>

lemma year_zero_february:
  "daysInMonth utc 0 1 = Some 28 \<and> DaysInMonth 0 1 = 29"
  by code_simp

text \<open>
  And it fails where the zone of the platform has no such day. Kiritimati had no
  31 December 1994; there day 0 of January 1995 is read back as the first of January,
  and December 1994 is drawn with the single cell of day 1.
\<close>

lemma kiritimati_december_1994:
  "firstDay kiritimati 1994 11 = Some 4 \<and> daysInMonth kiritimati 1994 11 = Some 1
   \<and> DaysInMonth 1994 11 = 31 \<and> \<not> keepsDay kiritimati (MakeDay 1994 12 0)"
  by code_simp

lemma kiritimati_grid:
  "length (renderCalendar kiritimati 11 1994) = 1
   \<and> (0, 4, 1) \<in> set (renderCalendar kiritimati 11 1994)"
proof -
  have "renderCalendar kiritimati 11 1994 = dayGrid (Some 4) (Some 1)"
    using kiritimati_december_1994 by (simp add: renderCalendar_def)
  then show ?thesis
    using dayGrid_count(1) [of 4 1] dayGrid_first [of 4 1 0 4] by simp
qed

text \<open>
  C2, amended. For every month in 0..11, every year from -271820 to 275759 (the years
  all of whose days Date represents) other than 0..99, and a platform whose zone keeps
  the first and the last day of the month: the two values read from Date are the first
  weekday and the number of days of the month in the civil calendar; a day number is
  drawn in cell (row, col) exactly when \<open>row * 7 + col - firstWeekday + 1\<close> lies in
  1..\<open>daysInMonth\<close>, and it is that number; no cell is drawn twice and exactly
  \<open>daysInMonth\<close> cells are drawn; day 1 is in row 0, column \<open>firstWeekday\<close>.
\<close>

theorem renderCalendar_days:
  assumes "0 \<le> month" and "month \<le> 11" and "- 271820 \<le> year" and "year \<le> 275759"
    and "year < 0 \<or> 99 < year"
    and "keepsDay z (MakeDay year month 1)" and "keepsDay z (MakeDay year (month + 1) 0)"
  shows "firstDay z year month = Some (firstWeekday month year)
       \<and> daysInMonth z year month = Some (DaysInMonth year month)
       \<and> set (renderCalendar z month year)
           = {(row, col, d). row < 6 \<and> col < 7
                \<and> d = int row * 7 + int col - firstWeekday month year + 1
                \<and> 1 \<le> d \<and> d \<le> DaysInMonth year month}
       \<and> distinct (map (\<lambda>(row, col, d). (row, col)) (renderCalendar z month year))
       \<and> length (renderCalendar z month year) = nat (DaysInMonth year month)
       \<and> (\<forall>row col. (row, col, 1) \<in> set (renderCalendar z month year)
             \<longleftrightarrow> row = 0 \<and> int col = firstWeekday month year)"
proof -
  let ?fd = "firstWeekday month year"
  let ?dm = "DaysInMonth year month"
  have fd: "0 \<le> ?fd" "?fd \<le> 6"
    by (simp_all add: firstWeekday_def)
  have dm: "1 \<le> ?dm" "?dm \<le> 31"
    using DaysInMonth_range [of year month] by simp_all
  have f: "firstDay z year month = Some ?fd"
    by (rule firstDay_civil [OF assms(1-6)])
  have d: "daysInMonth z year month = Some ?dm"
    by (rule daysInMonth_civil [OF assms(1-5) assms(7)])
  have r: "renderCalendar z month year = dayGrid (Some ?fd) (Some ?dm)"
    by (simp only: renderCalendar_def f d)
  show ?thesis
    unfolding r
    using f d dayGrid_set [of ?fd ?dm] dayGrid_count [OF fd dm(2)]
      dayGrid_first [OF fd dm(1)]
    by simp
qed

text \<open>November 2026 on Kiritimati, fourteen hours ahead of UTC: 30 days from a Sunday.\<close>

lemma november_2026:
  "firstWeekday 10 2026 = 0" "DaysInMonth 2026 10 = 30"
  "keepsDay kiritimati (MakeDay 2026 10 1)" "keepsDay kiritimati (MakeDay 2026 11 0)"
  by code_simp+

theorem renderCalendar_days_witness:
  "(0::int) \<le> 10 \<and> (10::int) \<le> 11 \<and> (- 271820::int) \<le> 2026 \<and> (2026::int) \<le> 275759
   \<and> (99::int) < 2026
   \<and> keepsDay kiritimati (MakeDay 2026 10 1) \<and> keepsDay kiritimati (MakeDay 2026 (10 + 1) 0)
   \<and> firstDay kiritimati 2026 10 = Some 0 \<and> daysInMonth kiritimati 2026 10 = Some 30
   \<and> length (renderCalendar kiritimati 10 2026) = 30
   \<and> (0, 0, 1) \<in> set (renderCalendar kiritimati 10 2026)"
  using renderCalendar_days [of 10 2026 kiritimati] november_2026
  by simp

end
